theory Spec2Isabelle
  imports Main
begin

section \<open>Tree model\<close>

text \<open>
  The merge engine (\<^verbatim>\<open>MergeSyncProcess\<close>) and the Nextcloud adapter work on bookmark
  trees. The modules \<^verbatim>\<open>Tree\<close>, \<^verbatim>\<open>Diff\<close>, \<^verbatim>\<open>Scanner\<close> and \<^verbatim>\<open>Mappings\<close> are imported by
  the two source files but are not among them; what is needed of them is modelled from
  the specification and marked as such.

  An identifier is a string in its \<^verbatim>\<open>String(id)\<close> form, or \<^verbatim>\<open>undefined\<close> (\<open>None\<close>): the
  reconciler assigns the result of a mapping lookup to \<^verbatim>\<open>oldItem.id\<close>, and that result is
  \<^verbatim>\<open>undefined\<close> for an unmapped identifier. Equality of identifiers is the source's
  \<^verbatim>\<open>===\<close>.
\<close>

type_synonym ident = "string option"

text \<open>What the source throws: a \<open>TypeError\<close> of the runtime, or \<^verbatim>\<open>new Error(message)\<close>.\<close>

datatype error = TypeError | Error string

text \<open>
  Modelled from the spec: the items of the absent \<^verbatim>\<open>Tree\<close> module, ``a node in a tree;
  variant of \<^verbatim>\<open>{Folder, Bookmark}\<close>. Common attributes: \<^verbatim>\<open>id\<close>, \<^verbatim>\<open>parentId\<close>, \<^verbatim>\<open>title\<close>. A
  Bookmark additionally carries \<^verbatim>\<open>url\<close>. A Folder additionally carries an ordered sequence
  of child items.'' \<open>itype\<close> is the \<^verbatim>\<open>type\<close> attribute, \<open>setId\<close> and \<open>setParentId\<close> are
  the assignments to \<^verbatim>\<open>id\<close> and \<^verbatim>\<open>parentId\<close>.
\<close>

datatype itemType = FOLDER | BOOKMARK

datatype item =
    Bookmark (itemId: ident) (parentId: ident) (title: string) (url: string)
  | Folder (itemId: ident) (parentId: ident) (title: string) (children: "item list")

fun itype :: "item \<Rightarrow> itemType" where
  "itype (Bookmark _ _ _ _) = BOOKMARK"
| "itype (Folder _ _ _ _) = FOLDER"

fun setId :: "item \<Rightarrow> ident \<Rightarrow> item" where
  "setId (Bookmark _ p t u) i = Bookmark i p t u"
| "setId (Folder _ p t cs) i = Folder i p t cs"

fun setParentId :: "item \<Rightarrow> ident \<Rightarrow> item" where
  "setParentId (Bookmark i _ t u) p = Bookmark i p t u"
| "setParentId (Folder i _ t cs) p = Folder i p t cs"

text \<open>
  Modelled from the spec: \<^verbatim>\<open>clone\<close> of the absent \<^verbatim>\<open>Tree\<close> module is a deep copy. Items
  are values here, so the copy is the item itself.
\<close>

definition clone :: "item \<Rightarrow> item" where
  "clone i = i"

text \<open>
  Modelled from the spec: \<^verbatim>\<open>canMergeWith\<close> of the absent \<^verbatim>\<open>Tree\<close> module, ``true iff the
  same variant and same identity-neutral content (bookmarks: same URL; folders: same
  title)''.
\<close>

fun canMergeWith :: "item \<Rightarrow> item \<Rightarrow> bool" where
  "canMergeWith (Bookmark _ _ _ u) (Bookmark _ _ _ u') = (u = u')"
| "canMergeWith (Folder _ _ t _) (Folder _ _ t' _) = (t = t')"
| "canMergeWith _ _ = False"

text \<open>
  Modelled from the spec: \<^verbatim>\<open>findItem(kind, id)\<close> of the absent \<^verbatim>\<open>Tree\<close> module. The
  search covers the receiver and everything below it, in document order, and returns
  the first item of the requested variant with the requested identifier (\<^verbatim>\<open>undefined\<close>
  when there is none). The receiver itself is included: scenario S3 of the specification
  (local moves A into B, server moves B into A) is a hierarchy reversal only if a folder
  counts as found within itself.
\<close>

fun findItem :: "item \<Rightarrow> itemType \<Rightarrow> ident \<Rightarrow> item option"
  and findItemIn :: "item list \<Rightarrow> itemType \<Rightarrow> ident \<Rightarrow> item option" where
  "findItem (Bookmark i p t u) ty x =
     (if ty = BOOKMARK \<and> i = x then Some (Bookmark i p t u) else None)"
| "findItem (Folder i p t cs) ty x =
     (if ty = FOLDER \<and> i = x then Some (Folder i p t cs) else findItemIn cs ty x)"
| "findItemIn [] ty x = None"
| "findItemIn (c # cs) ty x =
     (case findItem c ty x of Some r \<Rightarrow> Some r | None \<Rightarrow> findItemIn cs ty x)"

text \<open>Modelled from the spec: \<^verbatim>\<open>findFolder(id)\<close> is \<^verbatim>\<open>findItem\<close> for the folder variant.\<close>

definition findFolder :: "item \<Rightarrow> ident \<Rightarrow> item option" where
  "findFolder this x = findItem this FOLDER x"

text \<open>The items of a subtree, the root of the subtree first.\<close>

fun subtree :: "item \<Rightarrow> item list"
  and subtrees :: "item list \<Rightarrow> item list" where
  "subtree (Bookmark i p t u) = [Bookmark i p t u]"
| "subtree (Folder i p t cs) = Folder i p t cs # subtrees cs"
| "subtrees [] = []"
| "subtrees (c # cs) = subtree c @ subtrees cs"

text \<open>
  Modelled from the spec: \<^verbatim>\<open>Folder.getAncestorsOf(item, tree)\<close> of the absent \<^verbatim>\<open>Tree\<close>
  module: the folders on the way from the root of \<open>tree\<close> down to the folder \<open>item\<close>,
  the folder itself included (see \<open>findItem\<close> for why the reading is reflexive). The
  argument is the result of a \<open>findItem\<close>, so it may be \<^verbatim>\<open>undefined\<close>; reading a property
  of \<^verbatim>\<open>undefined\<close> is a \<open>TypeError\<close>. An item that does not occur in the tree has no
  ancestors there, which is an error as well.
\<close>

fun pathTo :: "item \<Rightarrow> ident \<Rightarrow> item list option"
  and pathToIn :: "item list \<Rightarrow> ident \<Rightarrow> item list option" where
  "pathTo (Bookmark i p t u) x = None"
| "pathTo (Folder i p t cs) x =
     (if i = x then Some [Folder i p t cs]
      else (case pathToIn cs x of None \<Rightarrow> None | Some path \<Rightarrow> Some (Folder i p t cs # path)))"
| "pathToIn [] x = None"
| "pathToIn (c # cs) x =
     (case pathTo c x of Some path \<Rightarrow> Some path | None \<Rightarrow> pathToIn cs x)"

definition getAncestorsOf :: "item option \<Rightarrow> item \<Rightarrow> error + item list" where
  "getAncestorsOf it tree =
     (case it of
        None \<Rightarrow> Inl TypeError
      | Some i \<Rightarrow>
          (case pathTo tree (itemId i) of
             None \<Rightarrow> Inl (Error ''Item is not a descendant of the tree passed'')
           | Some path \<Rightarrow> Inr path))"


section \<open>Diff, actions and the mapping table\<close>

text \<open>
  Modelled from the spec: the \<^verbatim>\<open>Action\<close> record and the \<^verbatim>\<open>Diff\<close> log of the absent \<^verbatim>\<open>Diff\<close>
  module: ``a record \<^verbatim>\<open>{type, payload, oldItem?, index?, oldIndex?}\<close>'' with \<^verbatim>\<open>type\<close> one of
  \<^verbatim>\<open>CREATE\<close>, \<^verbatim>\<open>UPDATE\<close>, \<^verbatim>\<open>MOVE\<close>, \<^verbatim>\<open>REMOVE\<close>, \<^verbatim>\<open>REORDER\<close>, and ``an ordered append-only
  log of actions with queries \<^verbatim>\<open>getActions()\<close> and \<^verbatim>\<open>getActions(type)\<close>; a
  \<^verbatim>\<open>commit(action)\<close> that appends''. The field \<open>atype\<close> is the \<^verbatim>\<open>type\<close> of the action.
\<close>

datatype actionType = CREATE | UPDATE | MOVE | REMOVE | REORDER

record action =
  atype :: actionType
  payload :: item
  oldItem :: "item option"
  index :: "nat option"
  oldIndex :: "nat option"

type_synonym diff = "action list"

definition commit :: "diff \<Rightarrow> action \<Rightarrow> diff" where
  "commit d a = d @ [a]"

definition getActions :: "diff \<Rightarrow> action list" where
  "getActions d = d"

definition getActionsOf :: "diff \<Rightarrow> actionType \<Rightarrow> action list" where
  "getActionsOf d ty = filter (\<lambda>a. atype a = ty) d"

text \<open>
  Modelled from the spec: the mapping table of the absent \<^verbatim>\<open>Mappings\<close> module, per
  direction and per variant a partial map on identifiers. \<open>byType m ty\<close> is
  \<^verbatim>\<open>m[type]\<close> and \<open>lookupId\<close> the property read \<^verbatim>\<open>m[type][id]\<close>, which yields
  \<^verbatim>\<open>undefined\<close> for an unmapped identifier; a read with an \<^verbatim>\<open>undefined\<close> key finds nothing.
\<close>

record mapping =
  folder :: "string \<rightharpoonup> string"
  bookmark :: "string \<rightharpoonup> string"

record snapshot =
  LocalToServer :: mapping
  ServerToLocal :: mapping

definition byType :: "mapping \<Rightarrow> itemType \<Rightarrow> (string \<rightharpoonup> string)" where
  "byType m ty = (case ty of FOLDER \<Rightarrow> folder m | BOOKMARK \<Rightarrow> bookmark m)"

definition lookupId :: "(string \<rightharpoonup> string) \<Rightarrow> ident \<Rightarrow> ident" where
  "lookupId m i = (case i of None \<Rightarrow> None | Some k \<Rightarrow> m k)"

text \<open>
  Modelled from the spec: \<^verbatim>\<open>Diff.map(mapping, toServer, filter)\<close> of the absent \<^verbatim>\<open>Diff\<close>
  module: ``for every action where \<^verbatim>\<open>filter(action)\<close> is true: translate \<^verbatim>\<open>payload.id\<close>,
  \<^verbatim>\<open>payload.parentId\<close>, \<^verbatim>\<open>oldItem.id\<close>, \<^verbatim>\<open>oldItem.parentId\<close> through \<^verbatim>\<open>mapping\<close> in the
  chosen direction. Unmapped ids pass through unchanged.'' The mapping handed over by the
  reconciler is already the one of the chosen direction.
\<close>

definition translate :: "(string \<rightharpoonup> string) \<Rightarrow> ident \<Rightarrow> ident" where
  "translate m i = (case lookupId m i of None \<Rightarrow> i | Some j \<Rightarrow> Some j)"

definition mapItem :: "mapping \<Rightarrow> item \<Rightarrow> item" where
  "mapItem m it =
     setParentId (setId it (translate (byType m (itype it)) (itemId it)))
       (translate (folder m) (parentId it))"

definition mapAction :: "mapping \<Rightarrow> action \<Rightarrow> action" where
  "mapAction m a = a\<lparr>payload := mapItem m (payload a), oldItem := map_option (mapItem m) (oldItem a)\<rparr>"

definition Diff_map :: "mapping \<Rightarrow> bool \<Rightarrow> (action \<Rightarrow> bool) \<Rightarrow> diff \<Rightarrow> diff" where
  "Diff_map m toServer flt d = map (\<lambda>a. if flt a then mapAction m a else a) d"

text \<open>
  Modelled from the spec: \<^verbatim>\<open>addMapping(side, oldItem, newId)\<close> of the absent mapping store:
  additions are ``applied in FIFO order; duplicates (same \<^verbatim>\<open>oldItem.id\<close> under the same
  variant) overwrite silently''. \<open>side\<close> is the side on which \<open>newId\<close> lives: with
  \<open>Server\<close> the item is a local one and \<open>newId\<close> its server identifier, with \<open>LocalTree\<close>
  the item is a server one and \<open>newId\<close> its local identifier (this is how every call
  in \<^verbatim>\<open>MergeSyncProcess\<close> passes them). Both directions of the table are written; a
  pairing with an \<^verbatim>\<open>undefined\<close> identifier writes nothing.
\<close>

datatype resource = Server | LocalTree

type_synonym addition = "resource \<times> item \<times> ident"

definition putId :: "mapping \<Rightarrow> itemType \<Rightarrow> string \<Rightarrow> string \<Rightarrow> mapping" where
  "putId m ty k v =
     (case ty of
        FOLDER \<Rightarrow> m\<lparr>folder := (folder m)(k \<mapsto> v)\<rparr>
      | BOOKMARK \<Rightarrow> m\<lparr>bookmark := (bookmark m)(k \<mapsto> v)\<rparr>)"

definition addMapping :: "snapshot \<Rightarrow> addition \<Rightarrow> snapshot" where
  "addMapping store ad =
     (case ad of (side, it, newId) \<Rightarrow>
        (let localId = (if side = Server then itemId it else newId);
             remoteId = (if side = Server then newId else itemId it)
         in case (localId, remoteId) of
              (Some l, Some r) \<Rightarrow>
                store\<lparr>LocalToServer := putId (LocalToServer store) (itype it) l r,
                      ServerToLocal := putId (ServerToLocal store) (itype it) r l\<rparr>
            | _ \<Rightarrow> store))"

definition addMappings :: "snapshot \<Rightarrow> addition list \<Rightarrow> snapshot" where
  "addMappings store ads = foldl addMapping store ads"

section \<open>The merge reconciler\<close>

text \<open>
  \<^verbatim>\<open>this\<close> of \<^verbatim>\<open>MergeSyncProcess\<close>: the two trees, the content of the mapping store and the
  order flag. \<^verbatim>\<open>getSnapshot\<close> yields the content of the store as it is at that moment.
\<close>

record process =
  localTreeRoot :: item
  serverTreeRoot :: item
  mappings :: snapshot
  preserveOrder :: bool

definition getSnapshot :: "process \<Rightarrow> snapshot" where
  "getSnapshot this = mappings this"

text \<open>
  The \<^verbatim>\<open>Scanner\<close> module is absent. It enters as a parameter:
  \<open>scan oldTree newTree mergeable preserveOrder checkHashes\<close> is the list of the pairs
  \<open>(oldItem, newItem)\<close> on which a run of that scanner calls its merge callback, in
  call order. Every callback of \<^verbatim>\<open>MergeSyncProcess\<close> is a pure test followed by a push
  onto \<^verbatim>\<open>newMappings\<close>, so the pairs pushed are the pairs of that list which pass the test.
  A scanner run that throws is outside the model.
\<close>

type_synonym scanner =
  "item \<Rightarrow> item \<Rightarrow> (item \<Rightarrow> item \<Rightarrow> bool) \<Rightarrow> bool \<Rightarrow> bool \<Rightarrow> (item \<times> item) list"

text \<open>Callbacks that may throw: \<^verbatim>\<open>Array.filter\<close>, \<^verbatim>\<open>Array.find\<close> and a loop over actions.\<close>

fun filterE :: "('a \<Rightarrow> error + bool) \<Rightarrow> 'a list \<Rightarrow> error + 'a list" where
  "filterE f [] = Inr []"
| "filterE f (x # xs) =
     (case f x of
        Inl e \<Rightarrow> Inl e
      | Inr b \<Rightarrow>
          (case filterE f xs of
             Inl e \<Rightarrow> Inl e
           | Inr ys \<Rightarrow> Inr (if b then x # ys else ys)))"

fun findE :: "('a \<Rightarrow> error + bool) \<Rightarrow> 'a list \<Rightarrow> error + 'a option" where
  "findE f [] = Inr None"
| "findE f (x # xs) =
     (case f x of
        Inl e \<Rightarrow> Inl e
      | Inr b \<Rightarrow> if b then Inr (Some x) else findE f xs)"

fun foldE :: "('s \<Rightarrow> 'a \<Rightarrow> error + 's) \<Rightarrow> 'a list \<Rightarrow> 's \<Rightarrow> error + 's" where
  "foldE f [] s = Inr s"
| "foldE f (x # xs) s =
     (case f s x of
        Inl e \<Rightarrow> Inl e
      | Inr s' \<Rightarrow> foldE f xs s')"


text \<open>
  The test of the sub-scan callback of \<^verbatim>\<open>reconcile\<close>
  (\<^verbatim>\<open>oldItem.type === newItem.type && oldItem.canMergeWith(newItem)\<close>) and the content of
  \<^verbatim>\<open>newMappings\<close> after the sub-scan: the matched pairs, then the pair of the two roots.
\<close>

definition mergeable :: "item \<Rightarrow> item \<Rightarrow> bool" where
  "mergeable old new = (itype old = itype new \<and> canMergeWith old new)"

definition subScan :: "scanner \<Rightarrow> process \<Rightarrow> item \<Rightarrow> item \<Rightarrow> (item \<times> ident) list" where
  "subScan scan this oldTree newTree =
     map (\<lambda>(old, new). (old, itemId new))
       (filter (\<lambda>(old, new). mergeable old new)
          (scan oldTree newTree mergeable (preserveOrder this) False))
     @ [(oldTree, itemId newTree)]"

text \<open>
  The test inside \<^verbatim>\<open>localAncestors.find\<close> and \<^verbatim>\<open>serverAncestors.find\<close>: the receiver of
  \<^verbatim>\<open>findItem\<close> is itself the result of a \<^verbatim>\<open>findItem\<close> and may be \<^verbatim>\<open>undefined\<close>.
\<close>

definition foundIn :: "item option \<Rightarrow> ident \<Rightarrow> error + bool" where
  "foundIn receiver x =
     (case receiver of
        None \<Rightarrow> Inl TypeError
      | Some f \<Rightarrow> Inr (findItem f FOLDER x \<noteq> None))"

text \<open>
  The filter callback of \<^verbatim>\<open>concurrentHierarchyReversals\<close>. Both passes contain it, with
  \<open>localMove\<close> and \<open>serverMove\<close> bound to \<^verbatim>\<open>action\<close> and \<^verbatim>\<open>a\<close> on the server pass
  and to \<^verbatim>\<open>a\<close> and \<^verbatim>\<open>action\<close> on the local pass; the four lookups come first, as in the
  source, and \<^verbatim>\<open>&&\<close> evaluates its right operand only when the left one holds.
\<close>

definition isHierarchyReversal :: "process \<Rightarrow> snapshot \<Rightarrow> action \<Rightarrow> action \<Rightarrow> error + bool" where
  "isHierarchyReversal this snap localMove serverMove =
     (let serverFolder = findItem (serverTreeRoot this) FOLDER (itemId (payload serverMove));
          localFolder = findItem (localTreeRoot this) FOLDER (itemId (payload localMove))
      in case getAncestorsOf (findItem (localTreeRoot this) FOLDER (parentId (payload localMove)))
                (localTreeRoot this) of
           Inl e \<Rightarrow> Inl e
         | Inr localAncestors \<Rightarrow>
            (case getAncestorsOf (findItem (serverTreeRoot this) FOLDER (parentId (payload serverMove)))
                    (serverTreeRoot this) of
               Inl e \<Rightarrow> Inl e
             | Inr serverAncestors \<Rightarrow>
                 if itype (payload localMove) = FOLDER \<and> itype (payload serverMove) = FOLDER then
                   (case findE (\<lambda>ancestor. foundIn serverFolder
                                  (lookupId (folder (LocalToServer snap)) (itemId ancestor)))
                           localAncestors of
                      Inl e \<Rightarrow> Inl e
                    | Inr None \<Rightarrow> Inr False
                    | Inr (Some _) \<Rightarrow>
                        (case findE (\<lambda>ancestor. foundIn localFolder
                                       (lookupId (folder (ServerToLocal snap)) (itemId ancestor)))
                                serverAncestors of
                           Inl e \<Rightarrow> Inl e
                         | Inr r \<Rightarrow> Inr (r \<noteq> None)))
                 else Inr False))"

text \<open>
  The compensating action of the server pass for one reversed server move \<open>a\<close>:
  \<^verbatim>\<open>{...a, payload, oldItem}\<close>. A move without \<^verbatim>\<open>oldItem\<close> makes \<^verbatim>\<open>a.oldItem.clone()\<close> a
  \<open>TypeError\<close>.
\<close>

definition revertedOldItem :: "snapshot \<Rightarrow> action \<Rightarrow> item" where
  "revertedOldItem snap a =
     (let oldItem0 = clone (payload a);
          oldItem1 = setId oldItem0 (lookupId (byType (ServerToLocal snap) (itype oldItem0)) (itemId oldItem0))
      in setParentId oldItem1 (lookupId (folder (ServerToLocal snap)) (parentId oldItem1)))"

definition hasMoveOf :: "diff \<Rightarrow> ident \<Rightarrow> bool" where
  "hasMoveOf d x = (find (\<lambda>move. itemId (payload move) = x) (getActionsOf d MOVE) \<noteq> None)"

definition revertMove :: "snapshot \<Rightarrow> diff \<Rightarrow> diff \<Rightarrow> action \<Rightarrow> error + diff" where
  "revertMove snap localDiff serverPlan a =
     (case oldItem a of
        None \<Rightarrow> Inl TypeError
      | Some old \<Rightarrow>
          (let payload' = clone old;
               oldItem' = revertedOldItem snap a
           in if hasMoveOf serverPlan (itemId payload') \<or> hasMoveOf localDiff (itemId payload')
              then Inr serverPlan
              else Inr (commit serverPlan (a\<lparr>payload := payload', oldItem := Some oldItem'\<rparr>))))"

text \<open>
  One call of the callback of the server pass (\<^verbatim>\<open>Parallel.each(localDiff.getActions(), ...)\<close>).
  The state is the plan under construction and the queue of mapping additions.
  \<^verbatim>\<open>Parallel.each\<close> starts the callbacks in the order of the actions. Only the branch of
  a concurrent creation awaits, and that branch leaves the plan alone, so the commits
  happen in the order of the actions. The additions of one action are queued in the
  order given here; between the additions of different actions the source fixes no
  order, and the model queues them in the order of the actions. The snapshot is taken
  before the passes, so no addition is seen by a lookup.
\<close>

definition serverStep ::
  "scanner \<Rightarrow> process \<Rightarrow> snapshot \<Rightarrow> diff \<Rightarrow> diff \<Rightarrow> diff \<times> addition list \<Rightarrow> action
     \<Rightarrow> error + diff \<times> addition list" where
  "serverStep scan this snap localDiff serverDiff st action =
     (let serverCreations = getActionsOf serverDiff CREATE;
          serverMoves = getActionsOf serverDiff MOVE;
          serverPlan = fst st;
          added = snd st
      in if atype action = REMOVE then Inr st
         else
          (case (if atype action = CREATE
                 then find (\<lambda>a. parentId (payload action)
                                   = lookupId (folder (ServerToLocal snap)) (parentId (payload a))
                                 \<and> canMergeWith (payload action) (payload a)) serverCreations
                 else None) of
             Some concurrentCreation \<Rightarrow>
               Inr (serverPlan,
                    added @ map (\<lambda>(old, newId). (LocalTree, old, newId))
                              (subScan scan this (payload concurrentCreation) (payload action)))
           | None \<Rightarrow>
              (case (if atype action = MOVE
                     then filterE (\<lambda>a. isHierarchyReversal this snap action a) serverMoves
                     else Inr []) of
                 Inl e \<Rightarrow> Inl e
               | Inr concurrentHierarchyReversals \<Rightarrow>
                   if concurrentHierarchyReversals \<noteq> [] then
                     (case foldE (revertMove snap localDiff) concurrentHierarchyReversals serverPlan of
                        Inl e \<Rightarrow> Inl e
                      | Inr serverPlan' \<Rightarrow> Inr (commit serverPlan' action, added))
                   else if atype action = REORDER then Inr st
                   else Inr (commit serverPlan action, added))))"

text \<open>One call of the callback of the local pass (\<^verbatim>\<open>Parallel.each(serverDiff.getActions(), ...)\<close>).\<close>

definition localStep ::
  "scanner \<Rightarrow> process \<Rightarrow> snapshot \<Rightarrow> diff \<Rightarrow> diff \<Rightarrow> diff \<times> addition list \<Rightarrow> action
     \<Rightarrow> error + diff \<times> addition list" where
  "localStep scan this snap localDiff serverDiff st action =
     (let localCreations = getActionsOf localDiff CREATE;
          localMoves = getActionsOf localDiff MOVE;
          localUpdates = getActionsOf localDiff UPDATE;
          localPlan = fst st;
          added = snd st
      in if atype action = REMOVE then Inr st
         else
          (case (if atype action = CREATE
                 then find (\<lambda>a. parentId (payload action)
                                   = lookupId (folder (LocalToServer snap)) (parentId (payload a))
                                 \<and> canMergeWith (payload action) (payload a)) localCreations
                 else None) of
             Some concurrentCreation \<Rightarrow>
               Inr (localPlan,
                    added @ map (\<lambda>(old, newId). (Server, old, newId))
                              (subScan scan this (payload concurrentCreation) (payload action)))
           | None \<Rightarrow>
              if atype action = MOVE
                 \<and> find (\<lambda>a. itemId (payload action)
                               = lookupId (byType (LocalToServer snap) (itype (payload a))) (itemId (payload a)))
                      localMoves \<noteq> None
              then Inr st
              else
               (case (if atype action = MOVE
                      then filterE (\<lambda>a. isHierarchyReversal this snap a action) localMoves
                      else Inr []) of
                  Inl e \<Rightarrow> Inl e
                | Inr concurrentHierarchyReversals \<Rightarrow>
                    if concurrentHierarchyReversals \<noteq> [] then Inr st
                    else if atype action = UPDATE
                       \<and> find (\<lambda>a. itemId (payload action)
                                     = lookupId (byType (LocalToServer snap) (itype (payload a))) (itemId (payload a)))
                            localUpdates \<noteq> None
                    then Inr st
                    else if atype action = REORDER then Inr st
                    else Inr (commit localPlan action, added))))"

text \<open>
  The filter handed to \<^verbatim>\<open>Diff.map\<close> after each pass, the two passes, and \<^verbatim>\<open>reconcile\<close>. The
  result carries, next to the two plans, the queue of \<^verbatim>\<open>addMapping\<close> calls; a throw in the
  server pass ends \<^verbatim>\<open>reconcile\<close> before the local pass starts.
\<close>

definition mapFilter :: "action \<Rightarrow> bool" where
  "mapFilter action = (atype action \<noteq> REORDER \<and> atype action \<noteq> MOVE)"

definition serverPass ::
  "scanner \<Rightarrow> process \<Rightarrow> snapshot \<Rightarrow> diff \<Rightarrow> diff \<Rightarrow> error + diff \<times> addition list" where
  "serverPass scan this snap localDiff serverDiff =
     foldE (serverStep scan this snap localDiff serverDiff) (getActions localDiff) ([], [])"

definition localPass ::
  "scanner \<Rightarrow> process \<Rightarrow> snapshot \<Rightarrow> diff \<Rightarrow> diff \<Rightarrow> addition list \<Rightarrow> error + diff \<times> addition list" where
  "localPass scan this snap localDiff serverDiff added =
     foldE (localStep scan this snap localDiff serverDiff) (getActions serverDiff) ([], added)"

record reconciled =
  localPlan :: diff
  serverPlan :: diff
  addedMappings :: "addition list"

definition reconcile :: "scanner \<Rightarrow> process \<Rightarrow> diff \<Rightarrow> diff \<Rightarrow> error + reconciled" where
  "reconcile scan this localDiff serverDiff =
     (let mappingsSnapshot = getSnapshot this
      in case serverPass scan this mappingsSnapshot localDiff serverDiff of
           Inl e \<Rightarrow> Inl e
         | Inr (serverPlan0, added0) \<Rightarrow>
            (let serverPlan1 = Diff_map (LocalToServer mappingsSnapshot) True mapFilter serverPlan0
             in case localPass scan this mappingsSnapshot localDiff serverDiff added0 of
                  Inl e \<Rightarrow> Inl e
                | Inr (localPlan0, added1) \<Rightarrow>
                   (let localPlan1 = Diff_map (ServerToLocal mappingsSnapshot) False mapFilter localPlan0
                    in Inr \<lparr>localPlan = localPlan1, serverPlan = serverPlan1,
                            addedMappings = added1\<rparr>)))"

section \<open>First-sync pairing\<close>

text \<open>
  \<^verbatim>\<open>getDiffs\<close> runs two scanners concurrently (\<^verbatim>\<open>Promise.all\<close>), both pushing onto the
  same \<^verbatim>\<open>newMappings\<close>. The calls of their two merge callbacks, in the order in which
  they happen, are the input of the model; the diffs themselves are the output of the
  absent \<^verbatim>\<open>Scanner\<close> and are not modelled.
\<close>

datatype scannerCall =
    LocalScannerCall item item
  | ServerScannerCall item item

text \<open>
  The two callbacks: \<open>LocalScannerCall serverItem localItem\<close> is a call of the callback
  of \<^verbatim>\<open>localScanner\<close>, \<open>ServerScannerCall localItem serverItem\<close> one of \<^verbatim>\<open>serverScanner\<close>.
  The result is the value returned to the scanner and \<^verbatim>\<open>newMappings\<close> after the call.
\<close>

definition getDiffs_callback ::
  "scannerCall \<Rightarrow> (item \<times> item) list \<Rightarrow> bool \<times> (item \<times> item) list" where
  "getDiffs_callback call newMappings =
     (case call of
        LocalScannerCall serverItem localItem \<Rightarrow>
          if itype localItem = itype serverItem \<and> canMergeWith serverItem localItem
          then (True, newMappings @ [(localItem, serverItem)])
          else (False, newMappings)
      | ServerScannerCall localItem serverItem \<Rightarrow>
          if itype serverItem = itype localItem \<and> canMergeWith serverItem localItem
          then (True, newMappings @ [(localItem, serverItem)])
          else (False, newMappings))"

definition getDiffs_newMappings :: "scannerCall list \<Rightarrow> (item \<times> item) list" where
  "getDiffs_newMappings calls = foldl (\<lambda>newMappings call. snd (getDiffs_callback call newMappings)) [] calls"

text \<open>
  The effect of \<^verbatim>\<open>getDiffs\<close> on the mapping store:
  \<^verbatim>\<open>this.addMapping(this.server, localItem, serverItem.id)\<close> for every element of
  \<^verbatim>\<open>newMappings\<close>, in order.
\<close>

definition getDiffs :: "process \<Rightarrow> scannerCall list \<Rightarrow> process" where
  "getDiffs this calls =
     this\<lparr>mappings :=
            addMappings (mappings this)
              (map (\<lambda>(localItem, serverItem). (Server, localItem, itemId serverItem))
                 (getDiffs_newMappings calls))\<rparr>"

section \<open>The Nextcloud adapter\<close>

text \<open>
  A request is the verb, the relative URL and the body of \<^verbatim>\<open>sendRequest\<close>. The URL and the
  body are kept structured instead of being rendered to text. The server is a function
  from the requests answered so far and the next request to the parsed answer;
  everything that makes \<^verbatim>\<open>sendRequest\<close> throw is an error answer. The adapter records
  the requests it has issued.
\<close>

datatype verb = GET | POST | PUT | DELETE | PATCH

text \<open>
  The relative URLs below \<^verbatim>\<open>index.php/apps/bookmarks/public/rest/v2/\<close>:
  \<^verbatim>\<open>bookmark?page=i&limit=300\<close>, \<^verbatim>\<open>bookmark?url=...\<close>, \<^verbatim>\<open>bookmark/id\<close>, \<^verbatim>\<open>bookmark\<close>,
  \<^verbatim>\<open>folder/id\<close> and \<^verbatim>\<open>folder/parentId/import\<close>. The bodies: \<^verbatim>\<open>{parent_folder, title}\<close>,
  \<^verbatim>\<open>{url, title, folders, tags}\<close> (no \<^verbatim>\<open>tags\<close> in a creation) and the import form, whose
  content is the folder handed to the absent \<^verbatim>\<open>HtmlSerializer\<close>.
\<close>

datatype relUrl =
    BookmarkPage nat
  | BookmarkByUrl string
  | BookmarkById string
  | BookmarkCollection
  | FolderById string
  | FolderImport string

datatype body =
    FolderBody ident string
  | BookmarkBody string string "ident list" "string list option"
  | ImportBody item

record request =
  verb :: verb
  relUrl :: relUrl
  body :: "body option"

text \<open>
  The answers, as far as the adapter reads them: \<^verbatim>\<open>json.data\<close> is an array of bookmark
  objects (\<^verbatim>\<open>id\<close>, \<^verbatim>\<open>url\<close>, \<^verbatim>\<open>title\<close>, \<^verbatim>\<open>folders\<close>, \<^verbatim>\<open>tags\<close>), \<^verbatim>\<open>json.data\<close> is an array
  of imported items (\<^verbatim>\<open>type\<close> \<^verbatim>\<open>bookmark\<close> with \<^verbatim>\<open>id\<close>, \<^verbatim>\<open>title\<close>, \<^verbatim>\<open>url\<close>; \<^verbatim>\<open>type\<close> \<^verbatim>\<open>folder\<close>
  with \<^verbatim>\<open>id\<close>, \<^verbatim>\<open>title\<close>, \<^verbatim>\<open>children\<close>; or something else), \<^verbatim>\<open>json.item\<close> is a bookmark
  object, or the answer has neither.
\<close>

record jsonBookmark =
  jid :: string
  jurl :: string
  jtitle :: string
  jfolders :: "string list"
  jtags :: "string list"

datatype jsonItem =
    JsonBookmark string string string
  | JsonFolder string string "jsonItem list"
  | JsonOther

datatype json =
    DataBookmarks "jsonBookmark list"
  | DataItems "jsonItem list"
  | ItemBookmark jsonBookmark
  | Plain

type_synonym server = "request list \<Rightarrow> request \<Rightarrow> error + json"

text \<open>
  The fields of \<^verbatim>\<open>NextcloudFoldersAdapter\<close> that the modelled methods read or write
  (\<^verbatim>\<open>list\<close> and \<^verbatim>\<open>hasFeatureBulkImport\<close> start as \<^verbatim>\<open>null\<close>), and the log of requests.
\<close>

record adapter =
  tree :: item
  list :: "item list option"
  hasFeatureHashing :: bool
  hasFeatureExistenceCheck :: bool
  hasFeatureBulkImport :: "bool option"
  requests :: "request list"


definition sendRequest :: "server \<Rightarrow> adapter \<Rightarrow> request \<Rightarrow> (error + json) \<times> adapter" where
  "sendRequest srv st req = (srv (requests st) req, st\<lparr>requests := requests st @ [req]\<rparr>)"

text \<open>
  JavaScript's \<^verbatim>\<open>String(x)\<close>, truthiness and \<^verbatim>\<open>split\<close> on identifiers. Identifiers are
  kept in their string form, so the empty string and \<^verbatim>\<open>undefined\<close> are the falsy ones; an
  identifier that is the number 0 would be falsy in the source as well and has no
  counterpart here.
\<close>

definition jsString :: "ident \<Rightarrow> string" where
  "jsString i = (case i of None \<Rightarrow> ''undefined'' | Some s \<Rightarrow> s)"


fun split :: "char \<Rightarrow> string \<Rightarrow> string list" where
  "split c [] = [[]]"
| "split c (x # xs) =
     (if x = c then [] # split c xs
      else (case split c xs of [] \<Rightarrow> [[x]] | y # ys \<Rightarrow> (x # y) # ys))"

text \<open>
  Modelled from the spec: \<^verbatim>\<open>count()\<close> of the absent \<^verbatim>\<open>Tree\<close> module, the ``recursive item
  count'' of a folder: the number of items below it.
\<close>

definition count :: "item \<Rightarrow> nat" where
  "count f = length (subtree f) - 1"

text \<open>
  A mutation of the cached tree: \<open>modifyFolder g x t\<close> applies \<open>g\<close> to the folder that
  \<open>findFolder t x\<close> returns and leaves the rest of \<open>t\<close> alone. \<^verbatim>\<open>createIndex()\<close> of the
  absent \<^verbatim>\<open>Tree\<close> module rebuilds a lookup table and changes no item.
\<close>

fun modifyFolder :: "(item \<Rightarrow> item) \<Rightarrow> ident \<Rightarrow> item \<Rightarrow> item option"
  and modifyFolderIn :: "(item \<Rightarrow> item) \<Rightarrow> ident \<Rightarrow> item list \<Rightarrow> item list option" where
  "modifyFolder g x (Bookmark i p t u) = None"
| "modifyFolder g x (Folder i p t cs) =
     (if i = x then Some (g (Folder i p t cs))
      else (case modifyFolderIn g x cs of None \<Rightarrow> None | Some cs' \<Rightarrow> Some (Folder i p t cs')))"
| "modifyFolderIn g x [] = None"
| "modifyFolderIn g x (c # cs) =
     (case modifyFolder g x c of
        Some c' \<Rightarrow> Some (c' # cs)
      | None \<Rightarrow> (case modifyFolderIn g x cs of None \<Rightarrow> None | Some cs' \<Rightarrow> Some (c # cs')))"

fun setChildren :: "item list \<Rightarrow> item \<Rightarrow> item" where
  "setChildren cs (Folder i p t _) = Folder i p t cs"
| "setChildren cs (Bookmark i p t u) = Bookmark i p t u"

fun setTitle :: "string \<Rightarrow> item \<Rightarrow> item" where
  "setTitle t (Folder i p _ cs) = Folder i p t cs"
| "setTitle t (Bookmark i p _ u) = Bookmark i p t u"

fun childrenOf :: "item \<Rightarrow> item list" where
  "childrenOf (Folder _ _ _ cs) = cs"
| "childrenOf (Bookmark _ _ _ _) = []"

definition mutate :: "(item \<Rightarrow> item) \<Rightarrow> ident \<Rightarrow> item \<Rightarrow> item" where
  "mutate g x t = (case modifyFolder g x t of None \<Rightarrow> t | Some t' \<Rightarrow> t')"

text \<open>
  \<^verbatim>\<open>updateFolder\<close>. \<^verbatim>\<open>oldFolder\<close> is \<^verbatim>\<open>undefined\<close> when the folder is not in the cached tree,
  and \<^verbatim>\<open>oldFolder.findFolder\<close> is then a \<open>TypeError\<close>. Items are values: the folder
  pushed under the new parent is the one found at the start, with the new title and
  parent identifier. (In the source it is the same object before and after the old
  parent loses it; the two differ only if the old parent lies below the folder itself,
  which no tree with agreeing parent pointers has.) The messages \<open>Error008\<close> and
  \<open>Error009\<close> stand for the localised texts of these keys.
\<close>

definition updateFolder :: "server \<Rightarrow> adapter \<Rightarrow> item \<Rightarrow> (error + unit) \<times> adapter" where
  "updateFolder srv st folder' =
     (case findFolder (tree st) (itemId folder') of
        None \<Rightarrow> (Inl TypeError, st)
      | Some oldFolder \<Rightarrow>
          if findFolder oldFolder (parentId folder') \<noteq> None
          then (Inl (Error ''Detected folder loop creation''), st)
          else
           (case sendRequest srv st
                   \<lparr>verb = PUT, relUrl = FolderById (jsString (itemId folder')),
                    body = Some (FolderBody (parentId folder') (title folder'))\<rparr> of
              (Inl e, st1) \<Rightarrow> (Inl e, st1)
            | (Inr _, st1) \<Rightarrow>
               (case findFolder (tree st1) (parentId oldFolder) of
                  None \<Rightarrow> (Inl (Error ''Error008''), st1)
                | Some oldParentFolder \<Rightarrow>
                   (let tree1 = mutate (\<lambda>f. setChildren
                                          (filter (\<lambda>child. jsString (itemId child) \<noteq> jsString (itemId folder'))
                                             (childrenOf f)) f)
                                  (parentId oldFolder) (tree st1);
                        st2 = st1\<lparr>tree := tree1\<rparr>
                    in case findFolder tree1 (parentId folder') of
                         None \<Rightarrow> (Inl (Error ''Error009''), st2)
                       | Some newParentFolder \<Rightarrow>
                          (let moved = setParentId (setTitle (title folder') oldFolder) (parentId folder');
                               tree2 = mutate (\<lambda>f. setChildren (childrenOf f @ [moved]) f)
                                         (parentId folder') tree1
                           in (Inr (), st2\<lparr>tree := tree2\<rparr>))))))"

text \<open>
  \<^verbatim>\<open>bulkImportFolder\<close>. \<^verbatim>\<open>HtmlSerializer\<close> is absent; the body of the import request is the
  folder it would serialise. A failed request is caught and clears the feature flag, and
  the following \<^verbatim>\<open>json.data\<close> on the unassigned \<^verbatim>\<open>json\<close> is a \<open>TypeError\<close>.
\<close>

fun importItem :: "ident \<Rightarrow> jsonItem \<Rightarrow> error + item"
  and importItems :: "ident \<Rightarrow> jsonItem list \<Rightarrow> error + item list" where
  "importItem pid (JsonBookmark i t u) = Inr (Bookmark (Some (i @ '';'' @ jsString pid)) pid t u)"
| "importItem pid (JsonFolder i t cs) =
     (case importItems (Some i) cs of
        Inl e \<Rightarrow> Inl e
      | Inr cs' \<Rightarrow> Inr (Folder (Some i) pid t cs'))"
| "importItem pid JsonOther = Inl (Error ''PEBKAC'')"
| "importItems pid [] = Inr []"
| "importItems pid (c # cs) =
     (case importItem pid c of
        Inl e \<Rightarrow> Inl e
      | Inr c' \<Rightarrow> (case importItems pid cs of Inl e \<Rightarrow> Inl e | Inr cs' \<Rightarrow> Inr (c' # cs')))"

definition bulkImportFolder ::
  "server \<Rightarrow> adapter \<Rightarrow> ident \<Rightarrow> item \<Rightarrow> (error + item) \<times> adapter" where
  "bulkImportFolder srv st parent folder' =
     (if hasFeatureBulkImport st = Some False
      then (Inl (Error ''Current server does not support bulk import''), st)
      else if count folder' > 300
      then (Inl (Error ''Refusing to bulk import more than 300 bookmarks''), st)
      else
       (case findFolder (tree st) parent of
          None \<Rightarrow> (Inl (Error ''Error005''), st)
        | Some parentFolder \<Rightarrow>
           (case sendRequest srv st
                   \<lparr>verb = POST, relUrl = FolderImport (jsString parent),
                    body = Some (ImportBody folder')\<rparr> of
              (Inl e, st1) \<Rightarrow> (Inl TypeError, st1\<lparr>hasFeatureBulkImport := Some False\<rparr>)
            | (Inr js, st1) \<Rightarrow>
               (case js of
                  DataItems items \<Rightarrow>
                    (case importItems parent items of
                       Inl e \<Rightarrow> (Inl e, st1)
                     | Inr cs \<Rightarrow>
                        (let imported = Folder parent (parentId folder') (title folder') cs
                         in (Inr imported,
                             st1\<lparr>tree := mutate (setChildren (childrenOf (clone imported))) parent (tree st1)\<rparr>)))
                | _ \<Rightarrow> (Inl TypeError, st1)))))"








section \<open>The properties in the specification's words\<close>

text \<open>
  The following definitions are not taken from the source. They say what the
  specification says, and the theorems below compare the source with them.
\<close>

text \<open>
  The ancestors of the folder with identifier \<open>x\<close> in a tree, and the folders at or
  below the folder with identifier \<open>x\<close>.
\<close>

definition spec_ancestors :: "item \<Rightarrow> ident \<Rightarrow> item list" where
  "spec_ancestors root x = (case pathTo root x of None \<Rightarrow> [] | Some path \<Rightarrow> path)"

definition spec_descendants :: "item \<Rightarrow> ident \<Rightarrow> item list" where
  "spec_descendants root x =
     (case findItem root FOLDER x of
        None \<Rightarrow> []
      | Some f \<Rightarrow> filter (\<lambda>d. itype d = FOLDER) (subtree f))"

text \<open>
  Hierarchy reversal (section 4.3): for a local move of folder \<open>L\<close> to the new parent
  \<open>P_L\<close> and a server move of folder \<open>S\<close> to the new parent \<open>P_S\<close>, both payloads are
  folders, some ancestor of \<open>P_L\<close> in the local tree has a server-mapped counterpart
  that is a descendant of \<open>S\<close>, and some ancestor of \<open>P_S\<close> in the server tree has a
  local-mapped counterpart that is a descendant of \<open>L\<close>.
\<close>

definition spec_hierarchyReversal :: "process \<Rightarrow> snapshot \<Rightarrow> action \<Rightarrow> action \<Rightarrow> bool" where
  "spec_hierarchyReversal this snap localMove serverMove \<longleftrightarrow>
     itype (payload localMove) = FOLDER \<and> itype (payload serverMove) = FOLDER
     \<and> (\<exists>ancestor \<in> set (spec_ancestors (localTreeRoot this) (parentId (payload localMove))).
          \<exists>d \<in> set (spec_descendants (serverTreeRoot this) (itemId (payload serverMove))).
            itemId d = lookupId (folder (LocalToServer snap)) (itemId ancestor))
     \<and> (\<exists>ancestor \<in> set (spec_ancestors (serverTreeRoot this) (parentId (payload serverMove))).
          \<exists>d \<in> set (spec_descendants (localTreeRoot this) (itemId (payload localMove))).
            itemId d = lookupId (folder (ServerToLocal snap)) (itemId ancestor))"

text \<open>
  The compensating move for a reversed server move \<open>B\<close> (section 4.3): payload is
  \<open>B.oldItem\<close>; \<open>oldItem\<close> is \<open>B.payload\<close> with its identifier and its parent identifier
  mapped to the local side. It is appended unless the server plan or the local diff
  already has a move with the identifier of that payload.
\<close>

definition spec_compensation :: "snapshot \<Rightarrow> action \<Rightarrow> action" where
  "spec_compensation snap B =
     B\<lparr>payload := the (oldItem B),
       oldItem := Some (setParentId
                          (setId (payload B)
                             (lookupId (byType (ServerToLocal snap) (itype (payload B)))
                                (itemId (payload B))))
                          (lookupId (folder (ServerToLocal snap)) (parentId (payload B))))\<rparr>"

definition spec_duplicate :: "diff \<Rightarrow> diff \<Rightarrow> action \<Rightarrow> bool" where
  "spec_duplicate plan localDiff c \<longleftrightarrow>
     (\<exists>m \<in> set plan \<union> set localDiff.
        atype m = MOVE \<and> itemId (payload m) = itemId (payload c))"

fun spec_compensate :: "snapshot \<Rightarrow> diff \<Rightarrow> diff \<Rightarrow> action list \<Rightarrow> diff" where
  "spec_compensate snap localDiff plan [] = plan"
| "spec_compensate snap localDiff plan (B # Bs) =
     spec_compensate snap localDiff
       (if spec_duplicate plan localDiff (spec_compensation snap B) then plan
        else plan @ [spec_compensation snap B])
       Bs"

text \<open>
  The folder graph of a tree (section 3, ``acyclic: no folder is a descendant of
  itself''): an edge leads from the identifier of a folder to the identifier of each
  folder among its children. The tree is acyclic when this graph has no cycle; with
  unique identifiers that is the case for every tree value, and a move that put a
  folder below itself would close one.
\<close>

fun folderEdges :: "item \<Rightarrow> (ident \<times> ident) set"
  and folderEdgesIn :: "item list \<Rightarrow> (ident \<times> ident) set" where
  "folderEdges (Bookmark i p t u) = {}"
| "folderEdges (Folder i p t cs) =
     {(i, itemId c) | c. c \<in> set cs \<and> itype c = FOLDER} \<union> folderEdgesIn cs"
| "folderEdgesIn [] = {}"
| "folderEdgesIn (c # cs) = folderEdges c \<union> folderEdgesIn cs"

definition folderIds :: "item \<Rightarrow> ident list" where
  "folderIds t = map itemId (filter (\<lambda>f. itype f = FOLDER) (subtree t))"

definition spec_acyclic :: "item \<Rightarrow> bool" where
  "spec_acyclic t \<longleftrightarrow> acyclic (folderEdges t)"

section \<open>Example data\<close>

text \<open>
  Scenario S3 of the specification: locally folder A was moved into folder B, on the
  server folder B was moved into folder A. The trees are the ones after the moves; the
  store pairs the three folders of each side.
\<close>

definition exLocalA :: item where
  "exLocalA = Folder (Some ''lA'') (Some ''lB'') ''A'' []"

definition exLocalB :: item where
  "exLocalB = Folder (Some ''lB'') (Some ''lroot'') ''B'' [exLocalA]"

definition exLocalRoot :: item where
  "exLocalRoot = Folder (Some ''lroot'') None ''root'' [exLocalB]"

definition exServerB :: item where
  "exServerB = Folder (Some ''sB'') (Some ''sA'') ''B'' []"

definition exServerA :: item where
  "exServerA = Folder (Some ''sA'') (Some ''sroot'') ''A'' [exServerB]"

definition exServerRoot :: item where
  "exServerRoot = Folder (Some ''sroot'') None ''root'' [exServerA]"

definition exSnapshot :: snapshot where
  "exSnapshot =
     \<lparr>LocalToServer =
        \<lparr>folder = [''lA'' \<mapsto> ''sA'', ''lB'' \<mapsto> ''sB'', ''lroot'' \<mapsto> ''sroot''],
         bookmark = [''lx'' \<mapsto> ''sx'']\<rparr>,
      ServerToLocal =
        \<lparr>folder = [''sA'' \<mapsto> ''lA'', ''sB'' \<mapsto> ''lB'', ''sroot'' \<mapsto> ''lroot''],
         bookmark = [''sx'' \<mapsto> ''lx'']\<rparr>\<rparr>"

definition exProcess :: process where
  "exProcess =
     \<lparr>localTreeRoot = exLocalRoot, serverTreeRoot = exServerRoot,
      mappings = exSnapshot, preserveOrder = False\<rparr>"

definition exLocalMove :: action where
  "exLocalMove =
     \<lparr>atype = MOVE, payload = exLocalA,
      oldItem = Some (Folder (Some ''lA'') (Some ''lroot'') ''A'' []),
      index = None, oldIndex = None\<rparr>"

definition exServerMove :: action where
  "exServerMove =
     \<lparr>atype = MOVE, payload = exServerB,
      oldItem = Some (Folder (Some ''sB'') (Some ''sroot'') ''B'' []),
      index = None, oldIndex = None\<rparr>"

text \<open>A scanner that never calls its callback, as on two childless folders.\<close>

definition exNoScan :: scanner where
  "exNoScan oldTree newTree mergeFn order hashes = []"

text \<open>
  Scenario S4: the bookmark paired as \<open>lx\<close>/\<open>sx\<close> is retitled on both sides; and a
  removal on each side.
\<close>

definition exLocalUpdate :: action where
  "exLocalUpdate =
     \<lparr>atype = UPDATE, payload = Bookmark (Some ''lx'') (Some ''lroot'') ''L'' ''http://x/'',
      oldItem = Some (Bookmark (Some ''lx'') (Some ''lroot'') ''X'' ''http://x/''),
      index = None, oldIndex = None\<rparr>"

definition exServerUpdate :: action where
  "exServerUpdate =
     \<lparr>atype = UPDATE, payload = Bookmark (Some ''sx'') (Some ''sroot'') ''S'' ''http://x/'',
      oldItem = Some (Bookmark (Some ''sx'') (Some ''sroot'') ''X'' ''http://x/''),
      index = None, oldIndex = None\<rparr>"

definition exLocalRemove :: action where
  "exLocalRemove =
     \<lparr>atype = REMOVE, payload = Bookmark (Some ''ly'') (Some ''lroot'') ''Y'' ''http://y/'',
      oldItem = None, index = Some 0, oldIndex = None\<rparr>"

definition exServerRemove :: action where
  "exServerRemove =
     \<lparr>atype = REMOVE, payload = Bookmark (Some ''sz'') (Some ''sroot'') ''Z'' ''http://z/'',
      oldItem = None, index = Some 0, oldIndex = None\<rparr>"

definition exLocalDiff :: diff where
  "exLocalDiff = [exLocalRemove, exLocalMove, exLocalUpdate]"

definition exServerDiff :: diff where
  "exServerDiff = [exServerRemove, exServerMove, exServerUpdate]"

definition exRevert :: action where
  "exRevert =
     \<lparr>atype = MOVE, payload = Folder (Some ''sB'') (Some ''sroot'') ''B'' [],
      oldItem = Some (Folder (Some ''lB'') (Some ''lA'') ''B'' []),
      index = None, oldIndex = None\<rparr>"

definition exMappedUpdate :: action where
  "exMappedUpdate =
     \<lparr>atype = UPDATE, payload = Bookmark (Some ''sx'') (Some ''sroot'') ''L'' ''http://x/'',
      oldItem = Some (Bookmark (Some ''sx'') (Some ''sroot'') ''X'' ''http://x/''),
      index = None, oldIndex = None\<rparr>"

definition exReconciled :: reconciled where
  "exReconciled =
     \<lparr>localPlan = [], serverPlan = [exRevert, exLocalMove, exMappedUpdate], addedMappings = []\<rparr>"

text \<open>
  Scenario S2, one level up: a folder titled N with a bookmark inside is created under
  the root on both sides. The scanner of this example offers every child of the old
  folder every child of the new one.
\<close>

definition exLocalCreate :: action where
  "exLocalCreate =
     \<lparr>atype = CREATE,
      payload = Folder (Some ''lN'') (Some ''lroot'') ''N''
                  [Bookmark (Some ''lb'') (Some ''lN'') ''b'' ''http://b/''],
      oldItem = None, index = Some 1, oldIndex = None\<rparr>"

definition exServerCreate :: action where
  "exServerCreate =
     \<lparr>atype = CREATE,
      payload = Folder (Some ''sN'') (Some ''sroot'') ''N''
                  [Bookmark (Some ''sb'') (Some ''sN'') ''b'' ''http://b/'',
                   Bookmark (Some ''sc'') (Some ''sN'') ''c'' ''http://c/''],
      oldItem = None, index = Some 1, oldIndex = None\<rparr>"

definition exChildScan :: scanner where
  "exChildScan oldTree newTree mergeFn order hashes =
     concat (map (\<lambda>old. map (\<lambda>new. (old, new)) (childrenOf newTree)) (childrenOf oldTree))"

text \<open>
  A first sync with conflicting proposals: the local bookmark \<open>l1\<close> is paired with the
  server bookmark \<open>s1\<close> by the local scanner and with \<open>s2\<close>, which has the same URL, by
  the server scanner.
\<close>

definition exL1 :: item where
  "exL1 = Bookmark (Some ''l1'') (Some ''lroot'') ''x'' ''http://x/''"

definition exS1 :: item where
  "exS1 = Bookmark (Some ''s1'') (Some ''sroot'') ''x'' ''http://x/''"

definition exS2 :: item where
  "exS2 = Bookmark (Some ''s2'') (Some ''sA'') ''x again'' ''http://x/''"

definition exConflictCalls :: "scannerCall list" where
  "exConflictCalls = [LocalScannerCall exS1 exL1, ServerScannerCall exL1 exS2]"

definition exEmptyStore :: snapshot where
  "exEmptyStore =
     \<lparr>LocalToServer = \<lparr>folder = Map.empty, bookmark = Map.empty\<rparr>,
      ServerToLocal = \<lparr>folder = Map.empty, bookmark = Map.empty\<rparr>\<rparr>"

definition exFirstSync :: process where
  "exFirstSync =
     \<lparr>localTreeRoot = Folder (Some ''lroot'') None ''root'' [exL1],
      serverTreeRoot = Folder (Some ''sroot'') None ''root''
                         [exS1, Folder (Some ''sA'') (Some ''sroot'') ''A'' [exS2]],
      mappings = exEmptyStore, preserveOrder = False\<rparr>"

text \<open>
  An adapter whose cached tree is the server tree of scenario S3, and a server that
  knows one bookmark with the URL \<open>http://x/\<close> (identifier 7, in folder 1), answers
  every creation with the identifier 9 and accepts every update.
\<close>

definition exJson :: jsonBookmark where
  "exJson = \<lparr>jid = ''7'', jurl = ''http://x/'', jtitle = ''x'', jfolders = [''1''], jtags = []\<rparr>"

definition exServer :: server where
  "exServer answered req =
     (case relUrl req of
        BookmarkByUrl u \<Rightarrow> Inr (DataBookmarks (if u = ''http://x/'' then [exJson] else []))
      | BookmarkById i \<Rightarrow> (if verb req = GET then Inr (ItemBookmark exJson) else Inr Plain)
      | BookmarkCollection \<Rightarrow> Inr (ItemBookmark (exJson\<lparr>jid := ''9'', jfolders := [''2'']\<rparr>))
      | FolderById i \<Rightarrow> Inr Plain
      | _ \<Rightarrow> Inl (Error ''Error019''))"

definition exAdapter :: adapter where
  "exAdapter =
     \<lparr>tree = exServerRoot, list = None, hasFeatureHashing = True,
      hasFeatureExistenceCheck = True, hasFeatureBulkImport = None, requests = []\<rparr>"



text \<open>Moving folder A below its own child B, and moving folder B up to the root.\<close>

definition exLoopFolder :: item where
  "exLoopFolder = Folder (Some ''sA'') (Some ''sB'') ''A'' []"

definition exMoveFolder :: item where
  "exMoveFolder = Folder (Some ''sB'') (Some ''sroot'') ''B'' []"

definition exMovedTree :: item where
  "exMovedTree =
     Folder (Some ''sroot'') None ''root''
       [Folder (Some ''sA'') (Some ''sroot'') ''A'' [],
        Folder (Some ''sB'') (Some ''sroot'') ''B'' []]"

text \<open>A folder with 301 bookmarks, and an adapter that has seen a bulk import fail.\<close>

definition exBigFolder :: item where
  "exBigFolder =
     Folder None (Some ''sroot'') ''big''
       (replicate 301 (Bookmark None None ''y'' ''http://y/''))"

definition exNoBulkAdapter :: adapter where
  "exNoBulkAdapter = exAdapter\<lparr>hasFeatureBulkImport := Some False\<rparr>"

definition exAfterMove :: adapter where
  "exAfterMove =
     exAdapter\<lparr>tree := exMovedTree,
               requests := [\<lparr>verb = PUT, relUrl = FolderById ''sB'',
                             body = Some (FolderBody (Some ''sroot'') ''B'')\<rparr>]\<rparr>"




section \<open>Properties of the reconciler\<close>

subsection \<open>Auxiliary facts\<close>

lemma atype_mapAction: "atype (mapAction m a) = atype a"
  by (simp add: mapAction_def)

lemma atype_Diff_map: "map atype (Diff_map m b f d) = map atype d"
  by (simp add: Diff_map_def atype_mapAction)

lemma Diff_map_nth:
  "i < length d \<Longrightarrow> Diff_map m b mapFilter d ! i =
     (if atype (d ! i) = MOVE \<or> atype (d ! i) = REORDER then d ! i else mapAction m (d ! i))"
  by (auto simp: Diff_map_def mapFilter_def)

lemma item_setters [simp]:
  "itemId (setId i x) = x" "parentId (setId i x) = parentId i" "itype (setId i x) = itype i"
  "itemId (setParentId i x) = itemId i" "parentId (setParentId i x) = x"
  "itype (setParentId i x) = itype i"
  by (cases i; simp)+

lemma filterE_subset: "filterE f xs = Inr ys \<Longrightarrow> set ys \<subseteq> set xs"
  by (induction xs arbitrary: ys) (auto split: sum.splits if_splits)

lemma findE_pure:
  "findE (\<lambda>x. Inr (p x)) xs = Inr (find p xs)"
  by (induction xs) auto

lemma find_None_iff': "(find p xs \<noteq> None) = (\<exists>x\<in>set xs. p x)"
  by (induction xs) auto

lemma find_first:
  assumes "\<exists>x\<in>set xs. p x"
  shows "\<exists>y\<in>set xs. p y \<and> find p xs = Some y"
  using assms by (induction xs) auto

lemma foldE_append:
  "foldE f (xs @ ys) s = (case foldE f xs s of Inl e \<Rightarrow> Inl e | Inr s' \<Rightarrow> foldE f ys s')"
  by (induction xs arbitrary: s) (auto split: sum.splits)

lemma foldE_invariant:
  assumes step: "\<And>s x s'. f s x = Inr s' \<Longrightarrow> P s \<Longrightarrow> P s'"
  shows "foldE f xs s = Inr s' \<Longrightarrow> P s \<Longrightarrow> P s'"
proof (induction xs arbitrary: s)
  case Nil
  then show ?case by simp
next
  case (Cons x xs)
  from Cons.prems(1) obtain s1 where s1: "f s x = Inr s1" and rest: "foldE f xs s1 = Inr s'"
    by (auto split: sum.splits)
  have "P s1" using step[OF s1 Cons.prems(2)] .
  then show ?case using Cons.IH[OF rest] by simp
qed


lemma reconcile_Inr:
  assumes "reconcile scan this localDiff serverDiff = Inr r"
  obtains sp0 ad0 lp0 ad1 where
    "serverPass scan this (getSnapshot this) localDiff serverDiff = Inr (sp0, ad0)"
    "localPass scan this (getSnapshot this) localDiff serverDiff ad0 = Inr (lp0, ad1)"
    "r = \<lparr>localPlan = Diff_map (ServerToLocal (getSnapshot this)) False mapFilter lp0,
          serverPlan = Diff_map (LocalToServer (getSnapshot this)) True mapFilter sp0,
          addedMappings = ad1\<rparr>"
  using assms by (auto simp: reconcile_def Let_def split: sum.splits prod.splits)

lemma ex_reconcile: "reconcile exNoScan exProcess exLocalDiff exServerDiff = Inr exReconciled"
  by code_simp

subsection \<open>No removal is planned\<close>

lemma revertMove_types:
  "revertMove snap ld plan a = Inr plan' \<Longrightarrow>
   set (map atype plan') \<subseteq> insert (atype a) (set (map atype plan))"
  by (auto simp: revertMove_def commit_def Let_def split: option.splits if_splits)

lemma revertMoves_types:
  "foldE (revertMove snap ld) revs plan = Inr plan' \<Longrightarrow> \<forall>a\<in>set revs. atype a = MOVE
     \<Longrightarrow> REMOVE \<notin> set (map atype plan) \<Longrightarrow> REMOVE \<notin> set (map atype plan')"
proof (induction revs arbitrary: plan)
  case Nil
  then show ?case by simp
next
  case (Cons a revs)
  from Cons.prems(1) obtain p1 where p1: "revertMove snap ld plan a = Inr p1"
    and rest: "foldE (revertMove snap ld) revs p1 = Inr plan'"
    by (auto split: sum.splits)
  have "REMOVE \<notin> set (map atype p1)"
    using revertMove_types[OF p1] Cons.prems(2,3) by auto
  then show ?case using Cons.IH[OF rest] Cons.prems(2) by simp
qed

lemma serverStep_MOVE:
  "atype action = MOVE \<Longrightarrow>
   serverStep scan this snap ld sd st action =
     (case filterE (\<lambda>a. isHierarchyReversal this snap action a) (getActionsOf sd MOVE) of
        Inl e \<Rightarrow> Inl e
      | Inr revs \<Rightarrow>
          if revs \<noteq> [] then
            (case foldE (revertMove snap ld) revs (fst st) of
               Inl e \<Rightarrow> Inl e
             | Inr plan' \<Rightarrow> Inr (commit plan' action, snd st))
          else Inr (commit (fst st) action, snd st))"
  by (simp add: serverStep_def Let_def split: sum.splits)

lemma serverStep_noRemove:
  assumes step: "serverStep scan this snap ld sd st action = Inr st'"
    and inv: "REMOVE \<notin> set (map atype (fst st))"
  shows "REMOVE \<notin> set (map atype (fst st'))"
proof (cases "atype action = MOVE")
  case True
  from step obtain revs where
    revs: "filterE (\<lambda>a. isHierarchyReversal this snap action a) (getActionsOf sd MOVE) = Inr revs"
    by (auto simp: serverStep_MOVE[OF True] split: sum.splits)
  have moves: "\<forall>a\<in>set revs. atype a = MOVE"
    using filterE_subset[OF revs] by (auto simp: getActionsOf_def)
  show ?thesis
  proof (cases "revs = []")
    case True
    with step revs \<open>atype action = MOVE\<close> inv show ?thesis
      by (auto simp: serverStep_MOVE commit_def)
  next
    case False
    with step revs \<open>atype action = MOVE\<close> obtain plan' where
      plan': "foldE (revertMove snap ld) revs (fst st) = Inr plan'"
      and st': "st' = (commit plan' action, snd st)"
      by (auto simp: serverStep_MOVE split: sum.splits)
    from revertMoves_types[OF plan' moves inv] st' \<open>atype action = MOVE\<close> show ?thesis
      by (simp add: commit_def)
  qed
next
  case False
  then show ?thesis using assms
    by (auto simp: serverStep_def Let_def commit_def split: option.splits if_splits)
qed

lemma localStep_noRemove:
  assumes step: "localStep scan this snap ld sd st action = Inr st'"
    and inv: "REMOVE \<notin> set (map atype (fst st))"
  shows "REMOVE \<notin> set (map atype (fst st'))"
  using assms
  by (auto simp: localStep_def Let_def commit_def split: option.splits if_splits sum.splits)

text \<open>
  C1. Whatever the two diffs and the mapping snapshot are, when \<open>reconcile\<close> returns its
  plans, neither the server plan nor the local plan contains an action of type
  \<open>REMOVE\<close>: the removals of both diffs are skipped, every other committed action keeps
  its type, and a compensating action is a copy of a server \<open>MOVE\<close>.
\<close>

theorem reconcile_no_REMOVE:
  assumes "reconcile scan this localDiff serverDiff = Inr r"
  shows "REMOVE \<notin> set (map atype (serverPlan r)) \<and> REMOVE \<notin> set (map atype (localPlan r))"
proof -
  let ?snap = "getSnapshot this"
  from assms obtain sp0 ad0 lp0 ad1 where
    sp: "serverPass scan this ?snap localDiff serverDiff = Inr (sp0, ad0)"
    and lp: "localPass scan this ?snap localDiff serverDiff ad0 = Inr (lp0, ad1)"
    and r: "r = \<lparr>localPlan = Diff_map (ServerToLocal ?snap) False mapFilter lp0,
                 serverPlan = Diff_map (LocalToServer ?snap) True mapFilter sp0,
                 addedMappings = ad1\<rparr>"
    by (rule reconcile_Inr)
  have "REMOVE \<notin> set (map atype (fst (sp0, ad0)))"
  proof (rule foldE_invariant[where P = "\<lambda>s. REMOVE \<notin> set (map atype (fst s))",
        OF _ sp[unfolded serverPass_def]])
    show "REMOVE \<notin> set (map atype (fst ([], [])))" by simp
  qed (rule serverStep_noRemove)
  moreover have "REMOVE \<notin> set (map atype (fst (lp0, ad1)))"
  proof (rule foldE_invariant[where P = "\<lambda>s. REMOVE \<notin> set (map atype (fst s))",
        OF _ lp[unfolded localPass_def]])
    show "REMOVE \<notin> set (map atype (fst ([], ad0)))" by simp
  qed (rule localStep_noRemove)
  ultimately show ?thesis
    by (simp add: r atype_Diff_map)
qed

theorem reconcile_no_REMOVE_witness:
  "reconcile exNoScan exProcess exLocalDiff exServerDiff = Inr exReconciled
   \<and> REMOVE \<in> set (map atype exLocalDiff) \<and> REMOVE \<in> set (map atype exServerDiff)
   \<and> REMOVE \<notin> set (map atype (serverPlan exReconciled))
   \<and> REMOVE \<notin> set (map atype (localPlan exReconciled))"
  using reconcile_no_REMOVE[OF ex_reconcile] ex_reconcile
  by (simp add: exLocalDiff_def exServerDiff_def exLocalRemove_def exServerRemove_def)

subsection \<open>Hierarchy reversal\<close>

lemma findItem_subtree:
  "(findItem f ty x \<noteq> None) = (\<exists>d \<in> set (subtree f). itype d = ty \<and> itemId d = x)"
  "(findItemIn fs ty x \<noteq> None) = (\<exists>d \<in> set (subtrees fs). itype d = ty \<and> itemId d = x)"
  by (induction f ty x and fs ty x rule: findItem_findItemIn.induct)
     (auto split: option.splits)

lemma findItem_pathTo:
  "findItem t FOLDER x = Some f \<Longrightarrow> \<exists>path. pathTo t x = Some path"
  "findItemIn ts FOLDER x = Some f \<Longrightarrow> \<exists>path. pathToIn ts x = Some path"
  by (induction t x and ts x rule: pathTo_pathToIn.induct)
     (auto split: option.splits if_splits)

lemma findItem_itemId:
  "findItem t ty x = Some f \<Longrightarrow> itemId f = x \<and> itype f = ty"
  "findItemIn ts ty x = Some f \<Longrightarrow> itemId f = x \<and> itype f = ty"
  by (induction t ty x and ts ty x rule: findItem_findItemIn.induct)
     (auto split: option.splits if_splits)

lemma findE_Nil_or:
  "findE (\<lambda>x. foundIn None (g x)) xs = (if xs = [] then Inr None else Inl TypeError)"
  by (cases xs) (auto simp: foundIn_def)

lemma findE_foundIn:
  assumes "findE (\<lambda>anc. foundIn r (g anc)) xs = Inr res"
  shows "(res \<noteq> None) =
     (\<exists>anc\<in>set xs. \<exists>d\<in>set (case r of None \<Rightarrow> [] | Some f \<Rightarrow> filter (\<lambda>d. itype d = FOLDER) (subtree f)).
        itemId d = g anc)"
proof (cases r)
  case None
  with assms show ?thesis by (auto simp: findE_Nil_or split: if_splits)
next
  case (Some f)
  have "findE (\<lambda>anc. foundIn r (g anc)) xs = Inr (find (\<lambda>anc. findItem f FOLDER (g anc) \<noteq> None) xs)"
    unfolding Some foundIn_def by (simp add: findE_pure)
  with assms have "res = find (\<lambda>anc. findItem f FOLDER (g anc) \<noteq> None) xs" by simp
  then have "(res \<noteq> None) = (\<exists>anc\<in>set xs. findItem f FOLDER (g anc) \<noteq> None)"
    by (simp only: find_None_iff')
  also have "\<dots> = (\<exists>anc\<in>set xs. \<exists>d\<in>set (subtree f). itype d = FOLDER \<and> itemId d = g anc)"
    by (simp only: findItem_subtree(1))
  finally show ?thesis
    by (auto simp: Some)
qed

lemma getAncestorsOf_Inr:
  assumes "getAncestorsOf (findItem t FOLDER x) t = Inr path"
  shows "spec_ancestors t x = path"
proof -
  from assms obtain f where f: "findItem t FOLDER x = Some f"
    by (auto simp: getAncestorsOf_def split: option.splits)
  have "itemId f = x" using findItem_itemId(1)[OF f] by simp
  with assms f show ?thesis
    by (auto simp: getAncestorsOf_def spec_ancestors_def split: option.splits)
qed

lemma isHierarchyReversal_spec:
  assumes "isHierarchyReversal this snap A B = Inr b"
  shows "b = spec_hierarchyReversal this snap A B"
proof -
  let ?L = "localTreeRoot this" and ?S = "serverTreeRoot this"
  from assms obtain la sa where
    la: "getAncestorsOf (findItem ?L FOLDER (parentId (payload A))) ?L = Inr la"
    and sa: "getAncestorsOf (findItem ?S FOLDER (parentId (payload B))) ?S = Inr sa"
    by (auto simp: isHierarchyReversal_def Let_def split: sum.splits)
  note anc = getAncestorsOf_Inr[OF la] getAncestorsOf_Inr[OF sa]
  show ?thesis
  proof (cases "itype (payload A) = FOLDER \<and> itype (payload B) = FOLDER")
    case False
    with assms la sa show ?thesis
      by (auto simp: isHierarchyReversal_def spec_hierarchyReversal_def Let_def)
  next
    case True
    from assms la sa True obtain r1 where
      r1: "findE (\<lambda>ancestor. foundIn (findItem ?S FOLDER (itemId (payload B)))
                    (lookupId (folder (LocalToServer snap)) (itemId ancestor))) la = Inr r1"
      by (auto simp: isHierarchyReversal_def Let_def split: sum.splits)
    note c1 = findE_foundIn[OF r1, folded spec_descendants_def]
    show ?thesis
    proof (cases r1)
      case None
      with assms la sa True r1 have "b = False"
        by (auto simp: isHierarchyReversal_def Let_def)
      with c1 None anc show ?thesis
        by (simp add: spec_hierarchyReversal_def)
    next
      case (Some a1)
      with assms la sa True r1 obtain r2 where
        r2: "findE (\<lambda>ancestor. foundIn (findItem ?L FOLDER (itemId (payload A)))
                    (lookupId (folder (ServerToLocal snap)) (itemId ancestor))) sa = Inr r2"
        and b: "b = (r2 \<noteq> None)"
        by (auto simp: isHierarchyReversal_def Let_def split: sum.splits)
      note c2 = findE_foundIn[OF r2, folded spec_descendants_def]
      from c1 c2 Some b anc True show ?thesis
        by (simp add: spec_hierarchyReversal_def)
    qed
  qed
qed

lemma isHierarchyReversal_returns:
  assumes "findItem (localTreeRoot this) FOLDER (parentId (payload A)) \<noteq> None"
    and "findItem (serverTreeRoot this) FOLDER (parentId (payload B)) \<noteq> None"
    and "findItem (serverTreeRoot this) FOLDER (itemId (payload B)) \<noteq> None"
    and "findItem (localTreeRoot this) FOLDER (itemId (payload A)) \<noteq> None"
  shows "\<exists>b. isHierarchyReversal this snap A B = Inr b"
proof -
  from assms obtain pl ps sf lf where
    pl: "findItem (localTreeRoot this) FOLDER (parentId (payload A)) = Some pl"
    and ps: "findItem (serverTreeRoot this) FOLDER (parentId (payload B)) = Some ps"
    and sf: "findItem (serverTreeRoot this) FOLDER (itemId (payload B)) = Some sf"
    and lf: "findItem (localTreeRoot this) FOLDER (itemId (payload A)) = Some lf"
    by auto
  from findItem_pathTo(1)[OF pl] findItem_itemId(1)[OF pl] obtain la where
    la: "getAncestorsOf (Some pl) (localTreeRoot this) = Inr la"
    by (auto simp: getAncestorsOf_def)
  from findItem_pathTo(1)[OF ps] findItem_itemId(1)[OF ps] obtain sa where
    sa: "getAncestorsOf (Some ps) (serverTreeRoot this) = Inr sa"
    by (auto simp: getAncestorsOf_def)
  show ?thesis
    by (auto simp: isHierarchyReversal_def Let_def pl ps sf lf la sa foundIn_def findE_pure
        split: option.splits)
qed

lemma reversals_are_classified:
  "filterE (\<lambda>B. isHierarchyReversal this snap A B) moves = Inr revs \<Longrightarrow>
   revs = filter (spec_hierarchyReversal this snap A) moves"
proof (induction moves arbitrary: revs)
  case Nil
  then show ?case by simp
next
  case (Cons B moves)
  from Cons.prems obtain b rest where b: "isHierarchyReversal this snap A B = Inr b"
    and rest: "filterE (\<lambda>B. isHierarchyReversal this snap A B) moves = Inr rest"
    and revs: "revs = (if b then B # rest else rest)"
    by (auto split: sum.splits)
  from isHierarchyReversal_spec[OF b] Cons.IH[OF rest] revs show ?case by simp
qed

text \<open>
  C2. For a local move \<open>A\<close> and a server move \<open>B\<close>, whenever the filter callback of the
  reconciler returns, its verdict is the hierarchy reversal of the specification: both
  payloads are folders, some ancestor of the new local parent has a \<open>LocalToServer\<close>
  image that is a folder at or below the moved server folder, and some ancestor of the
  new server parent has a \<open>ServerToLocal\<close> image that is a folder at or below the moved
  local folder. It returns whenever the two new parents and the two moved folders are
  found in their trees.
\<close>

theorem hierarchy_reversal_iff:
  "(isHierarchyReversal this snap A B = Inr b \<longrightarrow> b = spec_hierarchyReversal this snap A B)
   \<and> (findItem (localTreeRoot this) FOLDER (parentId (payload A)) \<noteq> None
      \<and> findItem (serverTreeRoot this) FOLDER (parentId (payload B)) \<noteq> None
      \<and> findItem (serverTreeRoot this) FOLDER (itemId (payload B)) \<noteq> None
      \<and> findItem (localTreeRoot this) FOLDER (itemId (payload A)) \<noteq> None
      \<longrightarrow> isHierarchyReversal this snap A B = Inr (spec_hierarchyReversal this snap A B))"
proof (intro conjI impI)
  assume "isHierarchyReversal this snap A B = Inr b"
  then show "b = spec_hierarchyReversal this snap A B" by (rule isHierarchyReversal_spec)
next
  assume "findItem (localTreeRoot this) FOLDER (parentId (payload A)) \<noteq> None
      \<and> findItem (serverTreeRoot this) FOLDER (parentId (payload B)) \<noteq> None
      \<and> findItem (serverTreeRoot this) FOLDER (itemId (payload B)) \<noteq> None
      \<and> findItem (localTreeRoot this) FOLDER (itemId (payload A)) \<noteq> None"
  then obtain b where b: "isHierarchyReversal this snap A B = Inr b"
    using isHierarchyReversal_returns by blast
  with isHierarchyReversal_spec[OF b]
  show "isHierarchyReversal this snap A B = Inr (spec_hierarchyReversal this snap A B)" by simp
qed

lemma ex_isHierarchyReversal: "isHierarchyReversal exProcess exSnapshot exLocalMove exServerMove = Inr True"
  by code_simp

theorem hierarchy_reversal_iff_witness:
  "isHierarchyReversal exProcess exSnapshot exLocalMove exServerMove = Inr True
   \<and> spec_hierarchyReversal exProcess exSnapshot exLocalMove exServerMove"
  using hierarchy_reversal_iff[of exProcess exSnapshot exLocalMove exServerMove True]
    ex_isHierarchyReversal
  by simp

subsection \<open>Compensation of a hierarchy reversal\<close>

lemma hasMoveOf_iff:
  "hasMoveOf d x = (\<exists>m\<in>set d. atype m = MOVE \<and> itemId (payload m) = x)"
proof -
  have "hasMoveOf d x = (\<exists>m\<in>set (filter (\<lambda>a. atype a = MOVE) d). itemId (payload m) = x)"
    unfolding hasMoveOf_def getActionsOf_def by (simp only: find_None_iff')
  then show ?thesis by auto
qed

lemma revertMove_spec:
  assumes "oldItem B \<noteq> None"
  shows "revertMove snap localDiff plan B =
     Inr (if spec_duplicate plan localDiff (spec_compensation snap B) then plan
          else plan @ [spec_compensation snap B])"
  using assms
  by (auto simp: revertMove_def spec_duplicate_def spec_compensation_def hasMoveOf_iff
      revertedOldItem_def clone_def commit_def Let_def)

lemma revertMoves_spec:
  assumes "\<forall>B\<in>set revs. oldItem B \<noteq> None"
  shows "foldE (revertMove snap localDiff) revs plan = Inr (spec_compensate snap localDiff plan revs)"
  using assms
  by (induction revs arbitrary: plan) (simp_all add: revertMove_spec)

text \<open>
  C3. On the server pass, let \<open>A\<close> be a local move, \<open>revs\<close> the server moves that the
  filter classifies as hierarchy reversals with \<open>A\<close> (at least one; by
  \<open>reversals_are_classified\<close> these are the server moves in hierarchy reversal with
  \<open>A\<close>), each carrying its \<open>oldItem\<close>, and \<open>plan\<close> the server plan built from the actions before \<open>A\<close>. After
  \<open>A\<close> the server plan is \<open>plan\<close>, followed in order by the compensating move of every
  \<open>B\<close> in \<open>revs\<close> (payload \<open>B.oldItem\<close>, \<open>oldItem\<close> \<open>B.payload\<close> with identifier and
  parent identifier translated through \<open>ServerToLocal\<close>) for which neither the plan so
  far nor the local diff has a move with the identifier of that payload, followed by
  \<open>A\<close> itself. The queue of mapping additions is untouched.
\<close>

theorem reversal_compensated:
  assumes "atype A = MOVE"
    and "filterE (\<lambda>B. isHierarchyReversal this snap A B) (getActionsOf serverDiff MOVE) = Inr revs"
    and "revs \<noteq> []"
    and "\<forall>B\<in>set revs. oldItem B \<noteq> None"
    and "foldE (serverStep scan this snap localDiff serverDiff) before ([], []) = Inr (plan, added)"
  shows "foldE (serverStep scan this snap localDiff serverDiff) (before @ [A]) ([], [])
         = Inr (spec_compensate snap localDiff plan revs @ [A], added)"
  using assms
  by (simp add: foldE_append serverStep_MOVE revertMoves_spec commit_def)

lemma ex_reversals:
  "filterE (\<lambda>B. isHierarchyReversal exProcess exSnapshot exLocalMove B)
     (getActionsOf exServerDiff MOVE) = Inr [exServerMove]"
  by code_simp

lemma ex_before_move:
  "foldE (serverStep exNoScan exProcess exSnapshot exLocalDiff exServerDiff) [exLocalRemove] ([], [])
   = Inr ([], [])"
  by code_simp

lemma ex_compensate: "spec_compensate exSnapshot exLocalDiff [] [exServerMove] = [exRevert]"
  by code_simp

theorem reversal_compensated_witness:
  "foldE (serverStep exNoScan exProcess exSnapshot exLocalDiff exServerDiff)
     ([exLocalRemove] @ [exLocalMove]) ([], [])
   = Inr ([exRevert, exLocalMove], [])"
proof -
  have 1: "atype exLocalMove = MOVE" by (simp add: exLocalMove_def)
  have 2: "[exServerMove] \<noteq> []" by simp
  have 3: "\<forall>B\<in>set [exServerMove]. oldItem B \<noteq> None" by (simp add: exServerMove_def)
  from reversal_compensated[OF 1 ex_reversals 2 3 ex_before_move] ex_compensate
  show ?thesis by simp
qed

subsection \<open>Concurrent creation\<close>

text \<open>
  C4. On the server pass, let \<open>c\<close> be a local creation for which some server creation
  \<open>s\<close> has a parent whose \<open>ServerToLocal\<close> image is the parent of \<open>c\<close> and a payload
  that \<open>c\<close>'s payload can merge with. Then for the first such server creation \<open>cc\<close>
  the step commits nothing: the plan after \<open>c\<close> is the plan before it. The queue of
  mapping additions grows by one addition for every pair on which the sub-scan of the
  two payloads calls its callback and the callback accepts (same variant and
  \<open>canMergeWith\<close>), and then by the pairing of the two payloads themselves.
\<close>

theorem concurrent_creation_maps_subtrees:
  assumes "atype c = CREATE"
    and "s \<in> set serverDiff" and "atype s = CREATE"
    and "parentId (payload c) = lookupId (folder (ServerToLocal snap)) (parentId (payload s))"
    and "canMergeWith (payload c) (payload s)"
    and "foldE (serverStep scan this snap localDiff serverDiff) before ([], []) = Inr (plan, added)"
  shows "\<exists>cc\<in>set serverDiff. atype cc = CREATE
           \<and> parentId (payload c) = lookupId (folder (ServerToLocal snap)) (parentId (payload cc))
           \<and> canMergeWith (payload c) (payload cc)
           \<and> foldE (serverStep scan this snap localDiff serverDiff) (before @ [c]) ([], [])
               = Inr (plan,
                      added
                      @ map (\<lambda>(old, new). (LocalTree, old, itemId new))
                          (filter (\<lambda>(old, new). itype old = itype new \<and> canMergeWith old new)
                             (scan (payload cc) (payload c) mergeable (preserveOrder this) False))
                      @ [(LocalTree, payload cc, itemId (payload c))])"
proof -
  let ?p = "\<lambda>a. parentId (payload c) = lookupId (folder (ServerToLocal snap)) (parentId (payload a))
                \<and> canMergeWith (payload c) (payload a)"
  have "\<exists>x\<in>set (getActionsOf serverDiff CREATE). ?p x"
    using assms(2-5) by (auto simp: getActionsOf_def)
  from find_first[OF this] obtain cc where
    cc: "cc \<in> set (getActionsOf serverDiff CREATE)" "?p cc"
      "find ?p (getActionsOf serverDiff CREATE) = Some cc"
    by blast
  have step: "serverStep scan this snap localDiff serverDiff (plan, added) c =
      Inr (plan, added @ map (\<lambda>(old, newId). (LocalTree, old, newId))
                           (subScan scan this (payload cc) (payload c)))"
    using assms(1) cc(3) by (simp add: serverStep_def Let_def)
  have "map (\<lambda>(old, newId). (LocalTree, old, newId)) (subScan scan this (payload cc) (payload c))
      = map (\<lambda>(old, new). (LocalTree, old, itemId new))
          (filter (\<lambda>(old, new). itype old = itype new \<and> canMergeWith old new)
             (scan (payload cc) (payload c) mergeable (preserveOrder this) False))
        @ [(LocalTree, payload cc, itemId (payload c))]"
    by (simp add: subScan_def mergeable_def case_prod_unfold)
  with step assms(6) cc(1,2) show ?thesis
    by (intro bexI[of _ cc]) (auto simp: foldE_append getActionsOf_def)
qed

lemma ex_before_create:
  "foldE (serverStep exChildScan exProcess exSnapshot [exLocalCreate] [exServerCreate]) [] ([], [])
   = Inr ([], [])"
  by simp

theorem concurrent_creation_maps_subtrees_witness:
  "foldE (serverStep exChildScan exProcess exSnapshot [exLocalCreate] [exServerCreate])
     ([] @ [exLocalCreate]) ([], [])
   = Inr ([], [(LocalTree, Bookmark (Some ''sb'') (Some ''sN'') ''b'' ''http://b/'', Some ''lb''),
               (LocalTree, payload exServerCreate, Some ''lN'')])"
proof -
  have 1: "atype exLocalCreate = CREATE" by (simp add: exLocalCreate_def)
  have 2: "exServerCreate \<in> set [exServerCreate]" by simp
  have 3: "atype exServerCreate = CREATE" by (simp add: exServerCreate_def)
  have 4: "parentId (payload exLocalCreate)
           = lookupId (folder (ServerToLocal exSnapshot)) (parentId (payload exServerCreate))"
    by code_simp
  have 5: "canMergeWith (payload exLocalCreate) (payload exServerCreate)"
    by code_simp
  have 6: "map (\<lambda>(old, new). (LocalTree, old, itemId new))
             (filter (\<lambda>(old, new). itype old = itype new \<and> canMergeWith old new)
                (exChildScan (payload exServerCreate) (payload exLocalCreate) mergeable
                   (preserveOrder exProcess) False))
           = [(LocalTree, Bookmark (Some ''sb'') (Some ''sN'') ''b'' ''http://b/'', Some ''lb'')]"
    by code_simp
  have 7: "itemId (payload exLocalCreate) = Some ''lN''" by code_simp
  from concurrent_creation_maps_subtrees[OF 1 2 3 4 5 ex_before_create] 6 7
  show ?thesis by simp
qed

subsection \<open>Concurrent updates\<close>











subsection \<open>The mapping step\<close>

text \<open>
  C6. When \<open>reconcile\<close> returns, each plan has the length of the plan its pass built,
  and position by position an action of type \<open>MOVE\<close> or \<open>REORDER\<close> is the action the
  pass committed, unchanged, while every other action is that action translated through
  \<open>LocalToServer\<close> (server plan) or \<open>ServerToLocal\<close> (local plan).
\<close>

theorem map_exempts_MOVE_and_REORDER:
  assumes "reconcile scan this localDiff serverDiff = Inr r"
  shows "\<exists>sp0 ad0 lp0 ad1.
           serverPass scan this (getSnapshot this) localDiff serverDiff = Inr (sp0, ad0)
         \<and> localPass scan this (getSnapshot this) localDiff serverDiff ad0 = Inr (lp0, ad1)
         \<and> length (serverPlan r) = length sp0 \<and> length (localPlan r) = length lp0
         \<and> (\<forall>i<length sp0. serverPlan r ! i =
               (if atype (sp0 ! i) = MOVE \<or> atype (sp0 ! i) = REORDER then sp0 ! i
                else mapAction (LocalToServer (getSnapshot this)) (sp0 ! i)))
         \<and> (\<forall>i<length lp0. localPlan r ! i =
               (if atype (lp0 ! i) = MOVE \<or> atype (lp0 ! i) = REORDER then lp0 ! i
                else mapAction (ServerToLocal (getSnapshot this)) (lp0 ! i)))"
proof -
  from assms obtain sp0 ad0 lp0 ad1 where
    sp: "serverPass scan this (getSnapshot this) localDiff serverDiff = Inr (sp0, ad0)"
    and lp: "localPass scan this (getSnapshot this) localDiff serverDiff ad0 = Inr (lp0, ad1)"
    and r: "r = \<lparr>localPlan = Diff_map (ServerToLocal (getSnapshot this)) False mapFilter lp0,
                 serverPlan = Diff_map (LocalToServer (getSnapshot this)) True mapFilter sp0,
                 addedMappings = ad1\<rparr>"
    by (rule reconcile_Inr)
  have len: "length (serverPlan r) = length sp0" "length (localPlan r) = length lp0"
    by (simp_all add: r Diff_map_def)
  have "\<forall>i<length sp0. serverPlan r ! i =
               (if atype (sp0 ! i) = MOVE \<or> atype (sp0 ! i) = REORDER then sp0 ! i
                else mapAction (LocalToServer (getSnapshot this)) (sp0 ! i))"
    by (simp add: r Diff_map_nth)
  moreover have "\<forall>i<length lp0. localPlan r ! i =
               (if atype (lp0 ! i) = MOVE \<or> atype (lp0 ! i) = REORDER then lp0 ! i
                else mapAction (ServerToLocal (getSnapshot this)) (lp0 ! i))"
    by (simp add: r Diff_map_nth)
  ultimately show ?thesis using sp lp len by blast
qed

theorem map_exempts_MOVE_and_REORDER_witness:
  "serverPlan exReconciled ! 1 = exLocalMove
   \<and> serverPlan exReconciled ! 2 = mapAction (LocalToServer exSnapshot) exLocalUpdate"
proof -
  have sp: "serverPass exNoScan exProcess (getSnapshot exProcess) exLocalDiff exServerDiff
            = Inr ([exRevert, exLocalMove, exLocalUpdate], [])"
    by code_simp
  have snap: "getSnapshot exProcess = exSnapshot" by (simp add: getSnapshot_def exProcess_def)
  have ty: "atype exLocalMove = MOVE" "atype exLocalUpdate = UPDATE"
    by (simp_all add: exLocalMove_def exLocalUpdate_def)
  from map_exempts_MOVE_and_REORDER[OF ex_reconcile] sp
  have "\<forall>i<length [exRevert, exLocalMove, exLocalUpdate]. serverPlan exReconciled ! i =
           (if atype ([exRevert, exLocalMove, exLocalUpdate] ! i) = MOVE
               \<or> atype ([exRevert, exLocalMove, exLocalUpdate] ! i) = REORDER
            then [exRevert, exLocalMove, exLocalUpdate] ! i
            else mapAction (LocalToServer (getSnapshot exProcess)) ([exRevert, exLocalMove, exLocalUpdate] ! i))"
    by auto
  then have "serverPlan exReconciled ! 1 = (if atype exLocalMove = MOVE \<or> atype exLocalMove = REORDER
                then exLocalMove else mapAction (LocalToServer exSnapshot) exLocalMove)"
    and "serverPlan exReconciled ! 2 = (if atype exLocalUpdate = MOVE \<or> atype exLocalUpdate = REORDER
                then exLocalUpdate else mapAction (LocalToServer exSnapshot) exLocalUpdate)"
    by (simp_all add: snap)
  with ty show ?thesis by simp
qed

section \<open>Properties of the first-sync pairing\<close>

lemma byType_putId:
  "byType (putId m ty k v) ty' k' = (if ty' = ty \<and> k' = k then Some v else byType m ty' k')"
  by (cases ty; cases ty'; simp add: byType_def putId_def)

lemma addMapping_Server_L2S:
  "byType (LocalToServer (addMapping store (Server, l, s))) ty k =
     (if itype l = ty \<and> itemId l = Some k \<and> s \<noteq> None then s
      else byType (LocalToServer store) ty k)"
  by (auto simp: addMapping_def byType_putId Let_def split: option.splits)

lemma addMapping_Server_S2L:
  "byType (ServerToLocal (addMapping store (Server, l, s))) ty k =
     (if itype l = ty \<and> s = Some k \<and> itemId l \<noteq> None then itemId l
      else byType (ServerToLocal store) ty k)"
  by (auto simp: addMapping_def byType_putId Let_def split: option.splits)

lemma addMappings_append: "addMappings store (xs @ ys) = addMappings (addMappings store xs) ys"
  by (simp add: addMappings_def)

lemma addMappings_L2S_untouched:
  assumes "\<forall>(l', s') \<in> set ys. \<not> (itype l' = ty \<and> itemId l' = Some k)"
  shows "byType (LocalToServer (addMappings store (map (\<lambda>(l, s). (Server, l, itemId s)) ys))) ty k
         = byType (LocalToServer store) ty k"
  using assms
proof (induction ys rule: rev_induct)
  case Nil
  then show ?case by (simp add: addMappings_def)
next
  case (snoc y ys)
  obtain l s where y: "y = (l, s)" by (cases y)
  from snoc.prems have rest: "\<forall>(l', s') \<in> set ys. \<not> (itype l' = ty \<and> itemId l' = Some k)"
    and this_one: "\<not> (itype l = ty \<and> itemId l = Some k)"
    by (auto simp: y)
  show ?case
    using snoc.IH[OF rest] this_one
    by (auto simp: y addMappings_def addMapping_Server_L2S)
qed

lemma addMappings_S2L_untouched:
  assumes "\<forall>(l', s') \<in> set ys. \<not> (itype l' = ty \<and> itemId s' = Some k)"
  shows "byType (ServerToLocal (addMappings store (map (\<lambda>(l, s). (Server, l, itemId s)) ys))) ty k
         = byType (ServerToLocal store) ty k"
  using assms
proof (induction ys rule: rev_induct)
  case Nil
  then show ?case by (simp add: addMappings_def)
next
  case (snoc y ys)
  obtain l s where y: "y = (l, s)" by (cases y)
  from snoc.prems have rest: "\<forall>(l', s') \<in> set ys. \<not> (itype l' = ty \<and> itemId s' = Some k)"
    and this_one: "\<not> (itype l = ty \<and> itemId s = Some k)"
    by (auto simp: y)
  show ?case
    using snoc.IH[OF rest] this_one
    by (auto simp: y addMappings_def addMapping_Server_S2L)
qed

text \<open>
  C7, as the code has it. Every pairing accepted by either scanner is written to the
  store in the order of the proposals, both directions at once, and nothing checks for
  a conflict. So for an accepted pairing \<open>(l, s)\<close>: if no later accepted pairing has a
  local item of the same variant and identifier, the store maps \<open>l\<close> to \<open>s\<close>; if no
  later accepted pairing has a server item with the identifier of \<open>s\<close> (and a local item
  of that variant), the store maps \<open>s\<close> to \<open>l\<close>. Of two conflicting proposals the later
  one is the one that stays.
\<close>

theorem getDiffs_last_pairing_wins:
  assumes "getDiffs_newMappings calls = xs @ (l, s) # ys"
    and "itemId l = Some li" and "itemId s = Some si"
  shows "((\<forall>(l', s') \<in> set ys. \<not> (itype l' = itype l \<and> itemId l' = Some li))
           \<longrightarrow> byType (LocalToServer (mappings (getDiffs this calls))) (itype l) li = Some si)
       \<and> ((\<forall>(l', s') \<in> set ys. \<not> (itype l' = itype l \<and> itemId s' = Some si))
           \<longrightarrow> byType (ServerToLocal (mappings (getDiffs this calls))) (itype l) si = Some li)"
proof -
  let ?f = "\<lambda>(l, s). (Server, l, itemId s)"
  have split: "mappings (getDiffs this calls)
      = addMappings (addMapping (addMappings (mappings this) (map ?f xs)) (Server, l, itemId s)) (map ?f ys)"
    by (simp add: getDiffs_def assms(1) addMappings_def)
  show ?thesis
    by (auto simp: split addMappings_L2S_untouched addMappings_S2L_untouched
        addMapping_Server_L2S addMapping_Server_S2L assms(2,3))
qed

theorem getDiffs_last_pairing_wins_witness:
  "getDiffs_newMappings exConflictCalls = [(exL1, exS1)] @ (exL1, exS2) # []
   \<and> byType (LocalToServer (mappings (getDiffs exFirstSync exConflictCalls))) BOOKMARK ''l1'' = Some ''s2''
   \<and> byType (ServerToLocal (mappings (getDiffs exFirstSync exConflictCalls))) BOOKMARK ''s2'' = Some ''l1''"
proof -
  have 1: "getDiffs_newMappings exConflictCalls = [(exL1, exS1)] @ (exL1, exS2) # []"
    by code_simp
  have 2: "itemId exL1 = Some ''l1''" "itemId exS2 = Some ''s2''" "itype exL1 = BOOKMARK"
    by (simp_all add: exL1_def exS2_def)
  from getDiffs_last_pairing_wins[OF 1 2(1,2), of exFirstSync] 1 2(3)
  show ?thesis by simp
qed

text \<open>
  C7, as the specification states it, fails: the pairing of \<open>l1\<close> proposed first is the one with
  \<open>s1\<close>, and the store ends up with \<open>l1\<close> mapped to \<open>s2\<close>, the later proposal.
\<close>

theorem getDiffs_first_pairing_counterexample:
  "getDiffs_newMappings exConflictCalls = [(exL1, exS1), (exL1, exS2)]
   \<and> itemId exL1 = Some ''l1'' \<and> itemId exS1 = Some ''s1'' \<and> itemId exS2 = Some ''s2''
   \<and> bookmark (LocalToServer (mappings (getDiffs exFirstSync exConflictCalls))) ''l1'' = Some ''s2''
   \<and> bookmark (LocalToServer (mappings (getDiffs exFirstSync exConflictCalls))) ''l1'' \<noteq> Some ''s1''"
  by code_simp

section \<open>Properties of the Nextcloud adapter\<close>

subsection \<open>The folder graph\<close>

lemma folderEdgesIn_iff:
  "e \<in> folderEdgesIn cs \<longleftrightarrow> (\<exists>c\<in>set cs. e \<in> folderEdges c)"
  by (induction cs) auto

lemma subtrees_iff: "x \<in> set (subtrees cs) \<longleftrightarrow> (\<exists>c\<in>set cs. x \<in> set (subtree c))"
  by (induction cs) auto

lemma subtree_self: "t \<in> set (subtree t)"
  by (cases t) simp_all

lemma subtree_trans:
  "f \<in> set (subtree t) \<Longrightarrow> x \<in> set (subtree f) \<Longrightarrow> x \<in> set (subtree t)"
  "f \<in> set (subtrees ts) \<Longrightarrow> x \<in> set (subtree f) \<Longrightarrow> x \<in> set (subtrees ts)"
  by (induction t and ts rule: subtree_subtrees.induct) auto

lemma child_in_subtree:
  "f \<in> set (subtree t) \<Longrightarrow> c \<in> set (childrenOf f) \<Longrightarrow> c \<in> set (subtree t)"
proof -
  assume f: "f \<in> set (subtree t)" and c: "c \<in> set (childrenOf f)"
  have "c \<in> set (subtree f)"
    using c by (cases f) (auto simp: subtrees_iff intro: subtree_self)
  with f show ?thesis by (rule subtree_trans(1))
qed

lemma folderEdges_iff:
  "(a, b) \<in> folderEdges t \<longleftrightarrow>
     (\<exists>f\<in>set (subtree t). itype f = FOLDER \<and> itemId f = a
        \<and> (\<exists>c\<in>set (childrenOf f). itype c = FOLDER \<and> itemId c = b))"
  "(a, b) \<in> folderEdgesIn ts \<longleftrightarrow>
     (\<exists>f\<in>set (subtrees ts). itype f = FOLDER \<and> itemId f = a
        \<and> (\<exists>c\<in>set (childrenOf f). itype c = FOLDER \<and> itemId c = b))"
  by (induction t and ts rule: folderEdges_folderEdgesIn.induct) auto

lemma findItem_mem:
  "findItem t ty x = Some f \<Longrightarrow> f \<in> set (subtree t)"
  "findItemIn ts ty x = Some f \<Longrightarrow> f \<in> set (subtrees ts)"
  by (induction t ty x and ts ty x rule: findItem_findItemIn.induct)
     (auto split: option.splits if_splits)

lemma unique_folder:
  assumes "distinct (folderIds t)"
    and "f \<in> set (subtree t)" "itype f = FOLDER"
    and "g \<in> set (subtree t)" "itype g = FOLDER"
    and "itemId f = itemId g"
  shows "f = g"
proof -
  let ?fs = "filter (\<lambda>f. itype f = FOLDER) (subtree t)"
  from assms(1) have "inj_on itemId (set ?fs)"
    by (simp add: folderIds_def distinct_map)
  moreover have "f \<in> set ?fs" "g \<in> set ?fs" using assms(2-5) by simp_all
  ultimately show ?thesis using assms(6) by (blast dest: inj_onD)
qed

lemma findItem_unique:
  assumes "distinct (folderIds t)" and "f \<in> set (subtree t)" and "itype f = FOLDER"
  shows "findItem t FOLDER (itemId f) = Some f"
proof -
  have "findItem t FOLDER (itemId f) \<noteq> None"
    using assms(2,3) by (subst findItem_subtree(1)) blast
  then obtain g where g: "findItem t FOLDER (itemId f) = Some g" by blast
  from findItem_mem(1)[OF g] findItem_itemId(1)[OF g]
  have "g \<in> set (subtree t)" "itype g = FOLDER" "itemId f = itemId g" by simp_all
  from unique_folder[OF assms(1) assms(2,3) this] g show ?thesis by blast
qed

lemma child_smaller: "c \<in> set (childrenOf f) \<Longrightarrow> size c < size f"
proof (cases f)
  case (Folder i p t cs)
  assume "c \<in> set (childrenOf f)"
  with Folder have "c \<in> set cs" by simp
  then have "size c \<le> size_list size cs" by (rule size_list_estimation') simp
  with Folder show ?thesis by simp
qed simp

lemma distinct_acyclic:
  assumes d: "distinct (folderIds t)"
  shows "acyclic (folderEdges t)"
proof -
  define sz where "sz k = (case findItem t FOLDER k of None \<Rightarrow> 0 | Some f \<Rightarrow> size f)" for k
  have "(folderEdges t)\<inverse> \<subseteq> measure sz"
  proof
    fix e assume "e \<in> (folderEdges t)\<inverse>"
    then obtain a b where e: "e = (b, a)" and ab: "(a, b) \<in> folderEdges t" by auto
    from ab obtain f c where f: "f \<in> set (subtree t)" "itype f = FOLDER" "itemId f = a"
      and c: "c \<in> set (childrenOf f)" "itype c = FOLDER" "itemId c = b"
      unfolding folderEdges_iff(1) by blast
    have "c \<in> set (subtree t)" using f(1) c(1) by (rule child_in_subtree)
    from findItem_unique[OF d this c(2)] findItem_unique[OF d f(1,2)] f(3) c(3)
    have "sz b = size c" "sz a = size f" by (simp_all add: sz_def)
    with child_smaller[OF c(1)] show "e \<in> measure sz" by (simp add: e)
  qed
  then have "wf ((folderEdges t)\<inverse>)" by (rule wf_subset[OF wf_measure])
  then have "acyclic ((folderEdges t)\<inverse>)" by (rule wf_acyclic)
  then show ?thesis by (simp only: acyclic_converse)
qed

lemma reachable_in_subtree:
  assumes d: "distinct (folderIds t)"
    and old: "findItem t FOLDER x = Some old"
    and reach: "(x, y) \<in> (folderEdges t)\<^sup>*"
  shows "\<exists>g\<in>set (subtree old). itype g = FOLDER \<and> itemId g = y"
  using reach
proof (induction rule: rtrancl_induct)
  case base
  from findItem_itemId(1)[OF old] show ?case by (auto intro: subtree_self)
next
  case (step y z)
  from step.IH obtain g where g: "g \<in> set (subtree old)" "itype g = FOLDER" "itemId g = y" by blast
  from step.hyps(2) obtain f c where f: "f \<in> set (subtree t)" "itype f = FOLDER" "itemId f = y"
    and c: "c \<in> set (childrenOf f)" "itype c = FOLDER" "itemId c = z"
    unfolding folderEdges_iff(1) by blast
  have "g \<in> set (subtree t)" using findItem_mem(1)[OF old] g(1) by (rule subtree_trans(1))
  have "itemId g = itemId f" using g(3) f(3) by simp
  from unique_folder[OF d \<open>g \<in> set (subtree t)\<close> g(2) f(1,2) this] have "g = f" .
  with c(1) g(1) have "c \<in> set (subtree old)" by (auto intro: child_in_subtree)
  with c(2,3) show ?case by blast
qed

lemma folderEdges_subtree:
  assumes "f \<in> set (subtree t)"
  shows "folderEdges f \<subseteq> folderEdges t"
proof
  fix e assume e: "e \<in> folderEdges f"
  obtain a b where ab: "e = (a, b)" by (cases e)
  from e obtain h c where h: "h \<in> set (subtree f)" "itype h = FOLDER" "itemId h = a"
    and c: "c \<in> set (childrenOf h)" "itype c = FOLDER" "itemId c = b"
    unfolding ab folderEdges_iff(1) by blast
  have "h \<in> set (subtree t)" using assms h(1) by (rule subtree_trans(1))
  with h(2,3) c show "e \<in> folderEdges t"
    unfolding ab folderEdges_iff(1) by blast
qed

lemma folderEdges_setters [simp]:
  "folderEdges (setParentId f p) = folderEdges f"
  "folderEdges (setTitle t f) = folderEdges f"
  by (cases f; simp)+

lemma setTitle_fields [simp]:
  "itemId (setTitle t f) = itemId f" "itype (setTitle t f) = itype f"
  by (cases f; simp)+

lemma top_edges_cong:
  assumes "map (\<lambda>c. (itype c, itemId c)) cs' = map (\<lambda>c. (itype c, itemId c)) cs"
  shows "{(i, itemId c) | c. c \<in> set cs' \<and> itype c = FOLDER}
       = {(i, itemId c) | c. c \<in> set cs \<and> itype c = FOLDER}"
proof -
  have "{(i, itemId c) | c. c \<in> set xs \<and> itype c = FOLDER}
      = (\<lambda>(ty, k). (i, k)) ` (set (map (\<lambda>c. (itype c, itemId c)) xs) \<inter> ({FOLDER} \<times> UNIV))" for xs
    by (auto simp: image_iff)
  moreover have "set (map (\<lambda>c. (itype c, itemId c)) cs') = set (map (\<lambda>c. (itype c, itemId c)) cs)"
    using assms by (rule arg_cong)
  ultimately show ?thesis by (simp only:)
qed

lemma modifyFolder_edges:
  assumes g: "\<And>f. itemId f = x \<Longrightarrow> itype f = FOLDER \<Longrightarrow>
                 itemId (g f) = itemId f \<and> itype (g f) = itype f
                 \<and> folderEdges (g f) \<subseteq> folderEdges f \<union> N"
  shows "modifyFolder g x t = Some t' \<Longrightarrow>
           itemId t' = itemId t \<and> itype t' = itype t \<and> folderEdges t' \<subseteq> folderEdges t \<union> N"
    and "modifyFolderIn g x ts = Some ts' \<Longrightarrow>
           map (\<lambda>c. (itype c, itemId c)) ts' = map (\<lambda>c. (itype c, itemId c)) ts
           \<and> folderEdgesIn ts' \<subseteq> folderEdgesIn ts \<union> N"
  using g
proof (induction g x t and g x ts arbitrary: t' and ts' rule: modifyFolder_modifyFolderIn.induct)
  case (1 g x i p t u)
  then show ?case by simp
next
  case (2 g x i p t cs)
  show ?case
  proof (cases "i = x")
    case True
    with "2.prems"(1) have "t' = g (Folder i p t cs)" by simp
    with "2.prems"(2)[of "Folder i p t cs"] True show ?thesis by simp
  next
    case False
    with "2.prems"(1) obtain cs' where cs': "modifyFolderIn g x cs = Some cs'"
      and t': "t' = Folder i p t cs'"
      by (auto split: option.splits)
    from "2.IH"[OF False cs' "2.prems"(2)]
    have sig: "map (\<lambda>c. (itype c, itemId c)) cs' = map (\<lambda>c. (itype c, itemId c)) cs"
      and sub: "folderEdgesIn cs' \<subseteq> folderEdgesIn cs \<union> N" by simp_all
    from top_edges_cong[OF sig, of i] sub show ?thesis
      unfolding t' by auto
  qed
next
  case (3 g x)
  then show ?case by simp
next
  case (4 g x c cs)
  show ?case
  proof (cases "modifyFolder g x c")
    case (Some c')
    with "4.prems"(1) have ts': "ts' = c' # cs" by simp
    from "4.IH"(1)[OF Some "4.prems"(2)] show ?thesis unfolding ts' by auto
  next
    case None
    with "4.prems"(1) obtain cs' where cs': "modifyFolderIn g x cs = Some cs'" and ts': "ts' = c # cs'"
      by (auto split: option.splits)
    from "4.IH"(2)[OF None cs' "4.prems"(2)] show ?thesis unfolding ts' by auto
  qed
qed

lemma mutate_edges:
  assumes "\<And>f. itemId f = x \<Longrightarrow> itype f = FOLDER \<Longrightarrow>
                 itemId (g f) = itemId f \<and> itype (g f) = itype f
                 \<and> folderEdges (g f) \<subseteq> folderEdges f \<union> N"
  shows "folderEdges (mutate g x t) \<subseteq> folderEdges t \<union> N"
proof (cases "modifyFolder g x t")
  case None
  then show ?thesis by (simp add: mutate_def)
next
  case (Some t')
  from modifyFolder_edges(1)[OF assms Some] Some show ?thesis
    by (simp add: mutate_def)
qed

lemma folderEdgesIn_filter: "folderEdgesIn (filter P cs) \<subseteq> folderEdgesIn cs"
  by (auto simp: folderEdgesIn_iff)

lemma folderEdgesIn_append: "folderEdgesIn (cs @ ds) = folderEdgesIn cs \<union> folderEdgesIn ds"
  by (induction cs) auto

lemma remove_child_edges:
  "itype f = FOLDER \<Longrightarrow>
     itemId (setChildren (filter P (childrenOf f)) f) = itemId f
   \<and> itype (setChildren (filter P (childrenOf f)) f) = itype f
   \<and> folderEdges (setChildren (filter P (childrenOf f)) f) \<subseteq> folderEdges f \<union> {}"
  using folderEdgesIn_filter[of P] by (cases f) auto

lemma push_child_edges:
  "itemId f = x \<Longrightarrow> itype f = FOLDER \<Longrightarrow>
     itemId (setChildren (childrenOf f @ [m]) f) = itemId f
   \<and> itype (setChildren (childrenOf f @ [m]) f) = itype f
   \<and> folderEdges (setChildren (childrenOf f @ [m]) f)
       \<subseteq> folderEdges f \<union> (insert (x, itemId m) (folderEdges m))"
  by (cases f) (auto simp: folderEdgesIn_append)

subsection \<open>Folder moves\<close>

lemma updateFolder_acyclic:
  assumes d: "distinct (folderIds (tree st))"
    and ok: "updateFolder srv st folder' = (Inr (), st')"
  shows "acyclic (folderEdges (tree st'))"
proof -
  let ?t = "tree st" and ?id = "itemId folder'" and ?pid = "parentId folder'"
  from ok obtain old where old: "findItem ?t FOLDER ?id = Some old"
    and chk: "findItem old FOLDER ?pid = None"
    by (auto simp: updateFolder_def findFolder_def split: option.splits if_splits)
  let ?g1 = "\<lambda>f. setChildren (filter (\<lambda>child. jsString (itemId child) \<noteq> jsString ?id) (childrenOf f)) f"
  let ?t1 = "mutate ?g1 (parentId old) ?t"
  let ?moved = "setParentId (setTitle (title folder') old) ?pid"
  let ?g2 = "\<lambda>f. setChildren (childrenOf f @ [?moved]) f"
  from ok old chk have t': "tree st' = mutate ?g2 ?pid ?t1"
    by (auto simp: updateFolder_def findFolder_def sendRequest_def Let_def
        split: option.splits if_splits sum.splits prod.splits)
  have e1: "folderEdges ?t1 \<subseteq> folderEdges ?t \<union> {}"
    by (rule mutate_edges) (rule remove_child_edges)
  have idm: "itemId ?moved = ?id" using findItem_itemId(1)[OF old] by simp
  have e2: "folderEdges (tree st') \<subseteq> folderEdges ?t1 \<union> insert (?pid, itemId ?moved) (folderEdges ?moved)"
    unfolding t' by (rule mutate_edges) (rule push_child_edges)
  have e3: "folderEdges ?moved \<subseteq> folderEdges ?t"
    using folderEdges_subtree[OF findItem_mem(1)[OF old]] by simp
  from e1 e2 e3 idm have sub: "folderEdges (tree st') \<subseteq> insert (?pid, ?id) (folderEdges ?t)"
    by auto
  have "(?id, ?pid) \<notin> (folderEdges ?t)\<^sup>*"
  proof
    assume "(?id, ?pid) \<in> (folderEdges ?t)\<^sup>*"
    from reachable_in_subtree[OF d old this]
    have "findItem old FOLDER ?pid \<noteq> None" by (subst findItem_subtree(1)) blast
    with chk show False by simp
  qed
  with distinct_acyclic[OF d] have "acyclic (insert (?pid, ?id) (folderEdges ?t))"
    by simp
  then show ?thesis using sub by (rule acyclic_subset)
qed

lemma updateFolder_guard:
  assumes "findFolder (tree st) (itemId folder') = Some oldFolder"
    and "findFolder oldFolder (parentId folder') \<noteq> None"
  shows "updateFolder srv st folder' = (Inl (Error ''Detected folder loop creation''), st)"
  using assms by (simp add: updateFolder_def)

lemma updateFolder_guard_graph:
  assumes d: "distinct (folderIds (tree st))"
    and old: "findFolder (tree st) (itemId folder') = Some oldFolder"
    and reach: "(itemId folder', parentId folder') \<in> (folderEdges (tree st))\<^sup>*"
  shows "updateFolder srv st folder' = (Inl (Error ''Detected folder loop creation''), st)"
proof -
  from reachable_in_subtree[OF d old[unfolded findFolder_def] reach]
  have "findItem oldFolder FOLDER (parentId folder') \<noteq> None"
    by (subst findItem_subtree(1)) blast
  with old show ?thesis by (simp add: updateFolder_guard findFolder_def)
qed

text \<open>
  C8. When the folder to update is in the cached tree and the requested parent is found
  at or below it, \<open>updateFolder\<close> fails with \<open>Detected folder loop creation\<close> and the
  adapter is as before: no request was issued and the cached tree is untouched. With
  unique folder identifiers this is the case whenever the requested parent can be
  reached from the folder in the folder graph. And when \<open>updateFolder\<close> succeeds on a
  tree with unique folder identifiers, the folder graph of the cached tree it leaves has
  no cycle.
\<close>

theorem updateFolder_refuses_loop:
  "(findFolder (tree st) (itemId folder') = Some oldFolder
      \<and> findFolder oldFolder (parentId folder') \<noteq> None
    \<longrightarrow> updateFolder srv st folder' = (Inl (Error ''Detected folder loop creation''), st))
   \<and> (distinct (folderIds (tree st))
      \<and> findFolder (tree st) (itemId folder') = Some oldFolder
      \<and> (itemId folder', parentId folder') \<in> (folderEdges (tree st))\<^sup>*
    \<longrightarrow> updateFolder srv st folder' = (Inl (Error ''Detected folder loop creation''), st))
   \<and> (distinct (folderIds (tree st)) \<and> updateFolder srv st folder' = (Inr (), st')
    \<longrightarrow> spec_acyclic (tree st'))"
  using updateFolder_guard[of st folder' oldFolder srv]
    updateFolder_guard_graph[of st folder' oldFolder srv]
    updateFolder_acyclic[of st srv folder' st']
  by (simp add: spec_acyclic_def)

lemma ex_loop_reachable:
  "(itemId exLoopFolder, parentId exLoopFolder) \<in> (folderEdges (tree exAdapter))\<^sup>*"
proof -
  have "(Some ''sA'', Some ''sB'') \<in> folderEdges (tree exAdapter)"
    by (simp add: exAdapter_def exServerRoot_def exServerA_def exServerB_def)
  then show ?thesis by (simp add: exLoopFolder_def)
qed

theorem updateFolder_refuses_loop_witness:
  "updateFolder exServer exAdapter exLoopFolder
     = (Inl (Error ''Detected folder loop creation''), exAdapter)
   \<and> updateFolder exServer exAdapter exMoveFolder = (Inr (), exAfterMove)
   \<and> spec_acyclic (tree exAfterMove)"
proof -
  have f: "findFolder (tree exAdapter) (itemId exLoopFolder) = Some exServerA" by code_simp
  have g: "findFolder exServerA (parentId exLoopFolder) \<noteq> None" by code_simp
  have d: "distinct (folderIds (tree exAdapter))" by code_simp
  have ok: "updateFolder exServer exAdapter exMoveFolder = (Inr (), exAfterMove)" by code_simp
  from updateFolder_refuses_loop[of exAdapter exLoopFolder exServerA exServer] f g
  have 1: "updateFolder exServer exAdapter exLoopFolder
             = (Inl (Error ''Detected folder loop creation''), exAdapter)" by simp
  from updateFolder_refuses_loop[of exAdapter exLoopFolder exServerA exServer] d f ex_loop_reachable
  have "updateFolder exServer exAdapter exLoopFolder
             = (Inl (Error ''Detected folder loop creation''), exAdapter)" by simp
  from updateFolder_refuses_loop[of exAdapter exMoveFolder exServerA exServer exAfterMove] d ok
  have 2: "spec_acyclic (tree exAfterMove)" by simp
  from 1 ok 2 show ?thesis by simp
qed

subsection \<open>Bulk import\<close>

text \<open>
  C9. \<open>bulkImportFolder\<close> fails, with the adapter as before (no request, no change of
  the cached tree), when the server is known not to support bulk import, and otherwise
  when the folder counts more than 300 items. The server becomes known not to support
  it when an import request fails.
\<close>

theorem bulkImportFolder_refuses:
  "(hasFeatureBulkImport st = Some False \<longrightarrow>
      bulkImportFolder srv st parent folder'
        = (Inl (Error ''Current server does not support bulk import''), st))
   \<and> (hasFeatureBulkImport st \<noteq> Some False \<and> 300 < count folder' \<longrightarrow>
      bulkImportFolder srv st parent folder'
        = (Inl (Error ''Refusing to bulk import more than 300 bookmarks''), st))
   \<and> (hasFeatureBulkImport st \<noteq> Some False \<and> count folder' \<le> 300
        \<and> findFolder (tree st) parent \<noteq> None
        \<and> srv (requests st) \<lparr>verb = POST, relUrl = FolderImport (jsString parent),
                                body = Some (ImportBody folder')\<rparr> = Inl e \<longrightarrow>
      hasFeatureBulkImport (snd (bulkImportFolder srv st parent folder')) = Some False)"
  by (auto simp: bulkImportFolder_def sendRequest_def split: option.splits)

theorem bulkImportFolder_refuses_witness:
  "bulkImportFolder exServer exNoBulkAdapter (Some ''sroot'') exMoveFolder
     = (Inl (Error ''Current server does not support bulk import''), exNoBulkAdapter)
   \<and> bulkImportFolder exServer exAdapter (Some ''sroot'') exBigFolder
     = (Inl (Error ''Refusing to bulk import more than 300 bookmarks''), exAdapter)
   \<and> hasFeatureBulkImport (snd (bulkImportFolder exServer exAdapter (Some ''sroot'') exMoveFolder))
     = Some False"
proof -
  have a: "hasFeatureBulkImport exNoBulkAdapter = Some False" by code_simp
  have b: "hasFeatureBulkImport exAdapter \<noteq> Some False" by code_simp
  have c: "300 < count exBigFolder" by code_simp
  have c': "count exMoveFolder \<le> 300" by code_simp
  have d: "findFolder (tree exAdapter) (Some ''sroot'') \<noteq> None" by code_simp
  have e: "exServer (requests exAdapter)
             \<lparr>verb = POST, relUrl = FolderImport (jsString (Some ''sroot'')),
              body = Some (ImportBody exMoveFolder)\<rparr> = Inl (Error ''Error019'')"
    by code_simp
  from bulkImportFolder_refuses[of exNoBulkAdapter exServer "Some ''sroot''" exMoveFolder] a
  have 1: "bulkImportFolder exServer exNoBulkAdapter (Some ''sroot'') exMoveFolder
     = (Inl (Error ''Current server does not support bulk import''), exNoBulkAdapter)" by simp
  from bulkImportFolder_refuses[of exAdapter exServer "Some ''sroot''" exBigFolder] b c
  have 2: "bulkImportFolder exServer exAdapter (Some ''sroot'') exBigFolder
     = (Inl (Error ''Refusing to bulk import more than 300 bookmarks''), exAdapter)" by simp
  from bulkImportFolder_refuses[of exAdapter exServer "Some ''sroot''" exMoveFolder "Error ''Error019''"]
    b c' d e
  have 3: "hasFeatureBulkImport (snd (bulkImportFolder exServer exAdapter (Some ''sroot'') exMoveFolder))
     = Some False" by simp
  from 1 2 3 show ?thesis by simp
qed

subsection \<open>Bookmark creation\<close>





lemma setId_setId [simp]: "setId (setId i x) y = setId i y"
  by (cases i) simp_all

lemma title_setId [simp]: "title (setId i x) = title i"
  by (cases i) simp_all















end
